(* ===== verification/NetIP.thy ===== *)
theory NetIP
  imports Prelude
begin

text \<open>
  What the program uses of Go's \<open>net.IP\<close>: the byte-slice representation, \<open>To4\<close>,
  \<open>Equal\<close>, \<open>String\<close> and \<open>net.ParseIP\<close>.  A slice is a list of bytes and the nil slice is
  the empty list.  An IPv4 address has two representations, four bytes and the
  sixteen-byte v4-in-v6 form, which \<open>Equal\<close> identifies; \<open>ParseIP\<close> returns the long form.
\<close>

type_synonym ip = "8 word list"

abbreviation nil_ip :: ip where "nil_ip \<equiv> []"

section \<open>Representation\<close>

definition v4InV6Prefix :: ip where
  "v4InV6Prefix = [0, 0, 0, 0, 0, 0, 0, 0, 0, 0, 255, 255]"

definition IPv4 :: "8 word \<Rightarrow> 8 word \<Rightarrow> 8 word \<Rightarrow> 8 word \<Rightarrow> ip" where
  "IPv4 a b c d = v4InV6Prefix @ [a, b, c, d]"

definition To4 :: "ip \<Rightarrow> ip" where
  "To4 p =
     (if length p = 4 then p
      else if length p = 16 \<and> take 12 p = v4InV6Prefix then drop 12 p
      else nil_ip)"

definition ip_equal :: "ip \<Rightarrow> ip \<Rightarrow> bool" where
  "ip_equal p x =
     (if length p = length x then p = x
      else if length p = 4 \<and> length x = 16 then take 12 x = v4InV6Prefix \<and> p = drop 12 x
      else if length p = 16 \<and> length x = 4 then take 12 p = v4InV6Prefix \<and> drop 12 p = x
      else False)"

section \<open>Text\<close>

definition hex_digit :: "nat \<Rightarrow> char" where
  "hex_digit d = (if d < 10 then char_of (48 + d) else char_of (87 + d))"

definition hex_val :: "char \<Rightarrow> nat option" where
  "hex_val c =
     (let n = of_char c :: nat
      in if 48 \<le> n \<and> n \<le> 57 then Some (n - 48)
         else if 97 \<le> n \<and> n \<le> 102 then Some (n - 87)
         else if 65 \<le> n \<and> n \<le> 70 then Some (n - 55)
         else None)"

fun show_hex :: "nat \<Rightarrow> string" where
  "show_hex n = (if n < 16 then [hex_digit n] else show_hex (n div 16) @ [hex_digit (n mod 16)])"

declare show_hex.simps [simp del]

definition hex_byte :: "8 word \<Rightarrow> string" where
  "hex_byte b = [hex_digit (unat b div 16), hex_digit (unat b mod 16)]"

fun groups_of :: "ip \<Rightarrow> nat list" where
  "groups_of (a # b # rest) = (unat a * 256 + unat b) # groups_of rest"
| "groups_of _ = []"

text \<open>
  The longest run of zero groups, the leftmost one among equals, as (start, end): the scan
  of \<open>IP.String\<close>, which jumps behind a run it records.
\<close>

fun zero_run :: "nat list \<Rightarrow> nat" where
  "zero_run [] = 0"
| "zero_run (g # gs) = (if g = 0 then Suc (zero_run gs) else 0)"

fun longest_run :: "nat list \<Rightarrow> nat \<Rightarrow> nat \<times> nat" where
  "longest_run [] i = (i, i)"
| "longest_run (g # gs) i =
     (let n = zero_run (g # gs); (e0, e1) = longest_run gs (Suc i)
      in if 0 < n \<and> e1 - e0 \<le> n then (i, i + n) else (e0, e1))"

definition join_groups :: "nat list \<Rightarrow> string" where
  "join_groups gs = join_with (CHR '':'') (map show_hex gs)"

definition ipv6_string :: "nat list \<Rightarrow> string" where
  "ipv6_string gs =
     (let (e0, e1) = longest_run gs 0
      in if e1 - e0 \<le> 1 then join_groups gs
         else join_groups (take e0 gs) @ ''::'' @ join_groups (drop e1 gs))"

definition ip_string :: "ip \<Rightarrow> string" where
  "ip_string p =
     (if p = [] then ''<nil>''
      else if To4 p \<noteq> [] then join_with (CHR ''.'') (map (show_nat \<circ> unat) (To4 p))
      else if length p \<noteq> 16 then ''?'' @ concat (map hex_byte p)
      else ipv6_string (groups_of p))"

section \<open>Parsing\<close>

definition parse_octet :: "string \<Rightarrow> 8 word option" where
  "parse_octet s =
     (case read_nat s of
        None \<Rightarrow> None
      | Some n \<Rightarrow>
          if n > 255 \<or> (length s > 1 \<and> hd s = CHR ''0'') then None else Some (of_nat n))"

definition parse_quad :: "string \<Rightarrow> ip option" where
  "parse_quad s =
     (case split_on (CHR ''.'') s of
        [a, b, c, d] \<Rightarrow>
          (case (parse_octet a, parse_octet b, parse_octet c, parse_octet d) of
             (Some w, Some x, Some y, Some z) \<Rightarrow> Some [w, x, y, z]
           | _ \<Rightarrow> None)
      | _ \<Rightarrow> None)"

fun read_hex :: "nat \<Rightarrow> string \<Rightarrow> nat option" where
  "read_hex acc [] = Some acc"
| "read_hex acc (c # cs) =
     (case hex_val c of None \<Rightarrow> None | Some d \<Rightarrow> read_hex (16 * acc + d) cs)"

definition parse_group :: "string \<Rightarrow> ip option" where
  "parse_group s =
     (if s = [] \<or> length s > 4 then None
      else case read_hex 0 s of
             None \<Rightarrow> None
           | Some n \<Rightarrow> Some [of_nat (n div 256), of_nat (n mod 256)])"

text \<open>Colon-separated groups; the last one may be a dotted quad when \<open>tail\<close> is set.\<close>

fun parse_groups :: "bool \<Rightarrow> string list \<Rightarrow> ip option" where
  "parse_groups tail [] = Some []"
| "parse_groups tail [g] =
     (case parse_group g of
        Some b \<Rightarrow> Some b
      | None \<Rightarrow> if tail then parse_quad g else None)"
| "parse_groups tail (g # gs) =
     (case (parse_group g, parse_groups tail gs) of
        (Some b, Some bs) \<Rightarrow> Some (b @ bs)
      | _ \<Rightarrow> None)"

definition parse_side :: "bool \<Rightarrow> string \<Rightarrow> ip option" where
  "parse_side tail s = (if s = [] then Some [] else parse_groups tail (split_on (CHR '':'') s))"

fun split_ellipsis :: "string \<Rightarrow> (string \<times> string) option" where
  "split_ellipsis (a # b # s) =
     (if a = CHR '':'' \<and> b = CHR '':'' then Some ([], s)
      else case split_ellipsis (b # s) of None \<Rightarrow> None | Some (l, r) \<Rightarrow> Some (a # l, r))"
| "split_ellipsis _ = None"

definition parse_ipv6 :: "string \<Rightarrow> ip" where
  "parse_ipv6 s =
     (case split_ellipsis s of
        None \<Rightarrow>
          (case parse_side True s of
             Some b \<Rightarrow> if length b = 16 then b else nil_ip
           | None \<Rightarrow> nil_ip)
      | Some (l, r) \<Rightarrow>
          (case (parse_side False l, parse_side True r) of
             (Some bl, Some br) \<Rightarrow>
               if length bl + length br < 16
               then bl @ replicate (16 - (length bl + length br)) 0 @ br else nil_ip
           | _ \<Rightarrow> nil_ip))"

definition parse_ipv4 :: "string \<Rightarrow> ip" where
  "parse_ipv4 s =
     (case parse_quad s of Some q \<Rightarrow> v4InV6Prefix @ q | None \<Rightarrow> nil_ip)"

text \<open>\<open>ParseIP\<close> dispatches on the first dot or colon of the text.\<close>

definition ParseIP :: "string \<Rightarrow> ip" where
  "ParseIP s =
     (case filter (\<lambda>c. c = CHR ''.'' \<or> c = CHR '':'') s of
        [] \<Rightarrow> nil_ip
      | c # _ \<Rightarrow> if c = CHR ''.'' then parse_ipv4 s else parse_ipv6 s)"

section \<open>Equality of addresses\<close>

lemma length_v4InV6Prefix [simp]: "length v4InV6Prefix = 12"
  by (simp add: v4InV6Prefix_def)

lemma ip_equal_refl [simp, intro]: "ip_equal p p"
  by (simp add: ip_equal_def)

lemma ip_equal_sym: "ip_equal p q \<Longrightarrow> ip_equal q p"
  by (auto simp: ip_equal_def split: if_splits)

lemma v4_prefix_decomp:
  "length p = 16 \<Longrightarrow> take 12 p = v4InV6Prefix \<Longrightarrow> p = v4InV6Prefix @ drop 12 p"
  by (metis append_take_drop_id)

lemma ip_equal_trans: "ip_equal p q \<Longrightarrow> ip_equal q r \<Longrightarrow> ip_equal p r"
  by (auto simp: ip_equal_def split: if_splits dest: v4_prefix_decomp) (metis v4_prefix_decomp)+

lemma ip_equal_nil [simp]: "ip_equal p [] \<longleftrightarrow> p = []" "ip_equal [] p \<longleftrightarrow> p = []"
  by (auto simp: ip_equal_def split: if_splits)

lemma To4_cong: "ip_equal p q \<Longrightarrow> length p \<noteq> length q \<Longrightarrow> To4 p = To4 q \<and> To4 p \<noteq> []"
  by (auto simp: ip_equal_def To4_def split: if_splits)

text \<open>Equal addresses print alike, whichever representation they have.\<close>

lemma ip_string_cong: "ip_equal p q \<Longrightarrow> ip_string p = ip_string q"
proof (cases "length p = length q")
  case True
  then show "ip_equal p q \<Longrightarrow> ?thesis" by (simp add: ip_equal_def)
next
  case False
  assume eq: "ip_equal p q"
  from To4_cong [OF eq False] have "To4 p = To4 q" "To4 p \<noteq> []" by auto
  moreover from eq False have "p \<noteq> []" "q \<noteq> []" by (auto simp: ip_equal_def split: if_splits)
  ultimately show ?thesis by (simp add: ip_string_def)
qed

section \<open>The dotted-quad round trip\<close>

lemma unat_byte_le [simp]: "unat (b :: 8 word) \<le> 255"
proof -
  have "unat b < 2 ^ LENGTH(8)" by (rule unsigned_less)
  then show ?thesis by simp
qed

lemma read_nat_octet: "read_nat (show_nat (unat (b :: 8 word))) = Some (unat b)"
  by simp

lemma show_nat_leading_zero: "length (show_nat n) > 1 \<Longrightarrow> hd (show_nat n) \<noteq> CHR ''0''"
proof (induction n rule: show_nat.induct)
  case (1 n)
  show ?case
  proof (cases "n < 10")
    case True
    with "1.prems" show ?thesis by (subst (asm) show_nat.simps) simp
  next
    case False
    have eq: "show_nat n = show_nat (n div 10) @ [digit_char (n mod 10)]"
      using False by (subst show_nat.simps) simp
    show ?thesis
    proof (cases "n div 10 < 10")
      case True
      then have "show_nat (n div 10) = [digit_char (n div 10)]"
        by (subst show_nat.simps) simp
      moreover have "of_char (digit_char (n div 10)) \<noteq> (48 :: nat)"
        using True False by (simp add: of_char_digit_char)
      ultimately show ?thesis using eq by auto
    next
      case big: False
      then have "length (show_nat (n div 10)) > 1"
        by (subst show_nat.simps) (simp add: Suc_lessI)
      with "1.IH" False eq show ?thesis by simp
    qed
  qed
qed

lemma parse_octet_show: "parse_octet (show_nat (unat b)) = Some b"
  using show_nat_leading_zero [of "unat b"] by (auto simp: parse_octet_def not_less)

lemma dot_notin_show_nat [simp]: "CHR ''.'' \<notin> set (show_nat n)"
  by (rule show_nat_no_char) simp

lemma colon_notin_show_nat [simp]: "CHR '':'' \<notin> set (show_nat n)"
  by (rule show_nat_no_char) simp

lemma parse_quad_show:
  "parse_quad (join_with (CHR ''.'') (map (show_nat \<circ> unat) [a, b, c, d])) = Some [a, b, c, d]"
  by (subst parse_quad_def, subst split_on_join) (simp_all add: parse_octet_show)

lemma filter_seps_quad:
  "filter (\<lambda>c. c = CHR ''.'' \<or> c = CHR '':'') (show_nat n) = []"
  by (auto simp: filter_empty_conv)

lemma ParseIP_dotted:
  "ParseIP (join_with (CHR ''.'') (map (show_nat \<circ> unat) [a, b, c, d])) = IPv4 a b c d"
proof -
  let ?s = "join_with (CHR ''.'') (map (show_nat \<circ> unat) [a, b, c, d])"
  have "filter (\<lambda>c. c = CHR ''.'' \<or> c = CHR '':'') ?s = ''...''"
    by (simp add: filter_seps_quad)
  then have "ParseIP ?s = parse_ipv4 ?s"
    by (simp only: ParseIP_def) simp
  then show ?thesis
    by (simp only: parse_ipv4_def parse_quad_show IPv4_def option.case)
qed

lemma length_4_conv: "length p = 4 \<longleftrightarrow> (\<exists>a b c d. p = [a, b, c, d])"
  by (auto simp: length_Suc_conv numeral_eq_Suc)

text \<open>An IPv4 address survives printing and parsing, up to its representation.\<close>

lemma ParseIP_ip_string_v4:
  assumes "To4 p \<noteq> []"
  shows "ip_equal (ParseIP (ip_string p)) p \<and> length (ParseIP (ip_string p)) = 16"
proof -
  have "length (To4 p) = 4"
    using assms by (auto simp: To4_def split: if_splits)
  then obtain a b c d where q: "To4 p = [a, b, c, d]"
    by (auto simp: length_4_conv)
  have "p \<noteq> []" using assms by (auto simp: To4_def)
  then have "ip_string p = join_with (CHR ''.'') (map (show_nat \<circ> unat) [a, b, c, d])"
    using q by (simp add: ip_string_def)
  then have P: "ParseIP (ip_string p) = IPv4 a b c d"
    using ParseIP_dotted by metis
  have "p = [a, b, c, d] \<or> p = v4InV6Prefix @ [a, b, c, d]"
    using q by (auto simp: To4_def split: if_splits dest: v4_prefix_decomp)
  then show ?thesis
    unfolding P IPv4_def by (auto simp: ip_equal_def)
qed

end
