(* ===== verification/Base64.thy ===== *)
theory Base64
  imports Prelude
begin

text \<open>
  Go's \<open>encoding/base64\<close> as the program uses it: the padded standard alphabet, in which
  \<open>encoding/json\<close> carries the \<open>[]byte\<close> fields of \<open>internal/proto\<close>, and the unpadded URL
  alphabet of the DoH \<open>dns\<close> query parameter.  The round trip is proved once, for any
  alphabet that satisfies the laws of the locale, and the two alphabets instantiate it.
\<close>

definition std_alphabet :: string where
  "std_alphabet = ''ABCDEFGHIJKLMNOPQRSTUVWXYZabcdefghijklmnopqrstuvwxyz0123456789+/''"

definition url_alphabet :: string where
  "url_alphabet = ''ABCDEFGHIJKLMNOPQRSTUVWXYZabcdefghijklmnopqrstuvwxyz0123456789-_''"

fun index_of :: "string \<Rightarrow> char \<Rightarrow> nat option" where
  "index_of [] c = None"
| "index_of (x # xs) c =
     (if x = c then Some 0 else case index_of xs c of None \<Rightarrow> None | Some i \<Rightarrow> Some (Suc i))"

abbreviation ord :: "char \<Rightarrow> nat" where "ord \<equiv> of_char"
abbreviation chr :: "nat \<Rightarrow> char" where "chr \<equiv> char_of"

fun b64_encode :: "string \<Rightarrow> bool \<Rightarrow> bytes \<Rightarrow> string" where
  "b64_encode al pad (a # b # c # rest) =
     [al ! (ord a div 4), al ! (ord a mod 4 * 16 + ord b div 16),
      al ! (ord b mod 16 * 4 + ord c div 64), al ! (ord c mod 64)] @ b64_encode al pad rest"
| "b64_encode al pad [a, b] =
     [al ! (ord a div 4), al ! (ord a mod 4 * 16 + ord b div 16), al ! (ord b mod 16 * 4)] @
     (if pad then ''='' else [])"
| "b64_encode al pad [a] =
     [al ! (ord a div 4), al ! (ord a mod 4 * 16)] @ (if pad then ''=='' else [])"
| "b64_encode al pad [] = []"

definition byte1 :: "nat \<Rightarrow> nat \<Rightarrow> char" where "byte1 w x = chr (w * 4 + x div 16)"
definition byte2 :: "nat \<Rightarrow> nat \<Rightarrow> char" where "byte2 x y = chr (x mod 16 * 16 + y div 4)"
definition byte3 :: "nat \<Rightarrow> nat \<Rightarrow> char" where "byte3 y z = chr (y mod 4 * 64 + z)"

definition tail2 :: "string \<Rightarrow> char \<Rightarrow> char \<Rightarrow> bytes option" where
  "tail2 al w x =
     (case (index_of al w, index_of al x) of
        (Some i, Some j) \<Rightarrow> Some [byte1 i j] | _ \<Rightarrow> None)"

definition tail3 :: "string \<Rightarrow> char \<Rightarrow> char \<Rightarrow> char \<Rightarrow> bytes option" where
  "tail3 al w x y =
     (case (index_of al w, index_of al x, index_of al y) of
        (Some i, Some j, Some k) \<Rightarrow> Some [byte1 i j, byte2 j k] | _ \<Rightarrow> None)"

fun b64_quanta :: "string \<Rightarrow> bool \<Rightarrow> string \<Rightarrow> bytes option" where
  "b64_quanta al pad (w # x # y # z # rest) =
     (if pad \<and> z = CHR ''='' then
        (if rest \<noteq> [] then None
         else if y = CHR ''='' then tail2 al w x else tail3 al w x y)
      else case (index_of al w, index_of al x, index_of al y, index_of al z) of
             (Some i, Some j, Some k, Some l) \<Rightarrow>
               (case b64_quanta al pad rest of
                  None \<Rightarrow> None
                | Some bs \<Rightarrow> Some ([byte1 i j, byte2 j k, byte3 k l] @ bs))
           | _ \<Rightarrow> None)"
| "b64_quanta al pad [w, x, y] = (if pad then None else tail3 al w x y)"
| "b64_quanta al pad [w, x] = (if pad then None else tail2 al w x)"
| "b64_quanta al pad [w] = None"
| "b64_quanta al pad [] = Some []"

text \<open>The decoder skips carriage returns and line feeds.\<close>

definition b64_decode :: "string \<Rightarrow> bool \<Rightarrow> string \<Rightarrow> bytes option" where
  "b64_decode al pad s = b64_quanta al pad (filter (\<lambda>c. ord c \<noteq> 10 \<and> ord c \<noteq> 13) s)"

definition std_encode :: "bytes \<Rightarrow> string" where "std_encode = b64_encode std_alphabet True"
definition std_decode :: "string \<Rightarrow> bytes option" where "std_decode = b64_decode std_alphabet True"
definition rawurl_encode :: "bytes \<Rightarrow> string" where "rawurl_encode = b64_encode url_alphabet False"
definition rawurl_decode :: "string \<Rightarrow> bytes option" where
  "rawurl_decode = b64_decode url_alphabet False"

section \<open>Any alphabet of 64 distinct printable characters\<close>

lemma index_of_nth: "distinct xs \<Longrightarrow> i < length xs \<Longrightarrow> index_of xs (xs ! i) = Some i"
proof (induction xs arbitrary: i)
  case Nil
  then show ?case by simp
next
  case (Cons x xs)
  then show ?case by (cases i) auto
qed

lemma ord_bound [simp]: "ord c < 256"
  by simp

lemma nat_pack: "(r::nat) < d \<Longrightarrow> (q * d + r) div d = q" "r < d \<Longrightarrow> (q * d + r) mod d = r"
  by simp_all

lemma nat_pack_bound: "(q::nat) < m \<Longrightarrow> r < d \<Longrightarrow> q * d + r < m * d"
proof -
  assume "q < m" "r < d"
  then have "q * d + r < Suc q * d" by simp
  also have "\<dots> \<le> m * d" using \<open>q < m\<close> by (intro mult_le_mono1) simp
  finally show ?thesis .
qed

lemma ord_div_bounds [simp]: "ord c div 4 < 64" "ord c div 16 < 16" "ord c div 64 < 4"
  by (simp_all add: less_mult_imp_div_less)

lemma sextet_bounds:
  "ord a div 4 < 64" "ord a mod 4 * 16 + ord b div 16 < 64"
  "ord a mod 4 * 16 < 64" "ord b mod 16 * 4 + ord c div 64 < 64" "ord b mod 16 * 4 < 64"
  "ord c mod 64 < 64"
  using nat_pack_bound [of "ord a mod 4" 4 "ord b div 16" 16]
    nat_pack_bound [of "ord a mod 4" 4 0 16]
    nat_pack_bound [of "ord b mod 16" 16 "ord c div 64" 4] nat_pack_bound [of "ord b mod 16" 16 0 4]
  by simp_all

lemma chr_eqI: "n = ord a \<Longrightarrow> chr n = a"
  by simp

lemma byte1_sextets [simp]:
  "byte1 (ord a div 4) (ord a mod 4 * 16 + ord b div 16) = a"
  "byte1 (ord a div 4) (ord a mod 4 * 16) = a"
  by (simp_all only: byte1_def nat_pack ord_div_bounds nonzero_mult_div_cancel_right)
     (simp_all add: chr_eqI)

lemma byte2_sextets [simp]:
  "byte2 (ord a mod 4 * 16 + ord b div 16) (ord b mod 16 * 4 + ord c div 64) = b"
  "byte2 (ord a mod 4 * 16 + ord b div 16) (ord b mod 16 * 4) = b"
  by (simp_all only: byte2_def nat_pack ord_div_bounds nonzero_mult_div_cancel_right)
     (simp_all add: chr_eqI)

lemma byte3_sextets [simp]: "byte3 (ord b mod 16 * 4 + ord c div 64) (ord c mod 64) = c"
  by (simp only: byte3_def nat_pack ord_div_bounds) (simp add: chr_eqI)

lemma triple_induct [case_names three two one none]:
  assumes "\<And>a b c rest. P rest \<Longrightarrow> P (a # b # c # rest)"
    and "\<And>a b. P [a, b]" and "\<And>a. P [a]" and "P []"
  shows "P (bs :: bytes)"
  by (rule b64_encode.induct [where P = "\<lambda>_ _ bs. P bs"]) (use assms in blast)+

locale alphabet =
  fixes al :: string
  assumes dist: "distinct al" and len: "length al = 64"
    and printable: "list_all (\<lambda>c. ord c > 32 \<and> c \<noteq> CHR ''='') al"
begin

lemma index_sextet: "i < 64 \<Longrightarrow> index_of al (al ! i) = Some i"
  by (simp add: index_of_nth dist len)

lemma sextet_printable: "i < 64 \<Longrightarrow> ord (al ! i) > 32 \<and> al ! i \<noteq> CHR ''=''"
  using printable len by (auto simp: list_all_length)

lemma quanta_encode: "b64_quanta al pad (b64_encode al pad bs) = Some bs"
  by (induction bs rule: triple_induct)
     (simp_all add: index_sextet sextet_printable sextet_bounds tail2_def tail3_def)

lemma encode_chars: "list_all (\<lambda>c. ord c > 32) (b64_encode al pad bs)"
  by (induction bs rule: triple_induct) (simp_all add: sextet_printable sextet_bounds)

lemma decode_encode: "b64_decode al pad (b64_encode al pad bs) = Some bs"
proof -
  have "filter (\<lambda>c. ord c \<noteq> 10 \<and> ord c \<noteq> 13) (b64_encode al pad bs) = b64_encode al pad bs"
    using encode_chars [of pad bs] by (auto simp: filter_id_conv list_all_iff)
  then show ?thesis by (simp add: b64_decode_def quanta_encode)
qed

end

sublocale alphabet \<subseteq> b64: codec "b64_encode al pad" "b64_decode al pad" "\<lambda>_. True" for pad
  by unfold_locales (rule decode_encode)

interpretation std: alphabet std_alphabet
  by unfold_locales (simp_all add: std_alphabet_def)

interpretation url: alphabet url_alphabet
  by unfold_locales (simp_all add: url_alphabet_def)

lemma std_decode_encode [simp]: "std_decode (std_encode bs) = Some bs"
  by (simp add: std_decode_def std_encode_def std.decode_encode)

lemma rawurl_decode_encode [simp]: "rawurl_decode (rawurl_encode bs) = Some bs"
  by (simp add: rawurl_decode_def rawurl_encode_def url.decode_encode)

lemma std_encode_Nil [simp]: "std_encode [] = []"
  by (simp add: std_encode_def)

end
