(* ===== verification/Proto.thy ===== *)
theory Proto
  imports Base64
begin

text \<open>
  \<open>internal/proto/proto.go\<close>: the three payloads that travel through Redis, and their JSON
  form.  JSON text is represented by its syntax tree (\<open>Json v\<close>), and text that is not JSON
  by \<open>NotJson\<close>; the mapping between structs and trees (field names, \<open>omitempty\<close>, base64 of
  \<open>[]byte\<close>, integer ranges, missing, null and duplicate fields) is the one \<open>encoding/json\<close>
  derives from the struct tags.
\<close>

datatype json =
    JNull
  | JBool bool
  | JInt int
  | JFrac real
  | JStr string
  | JArr "json list"
  | JObj "(string \<times> json) list"

datatype json_text = Json json | NotJson string

record request =
  req_id :: string
  req_name :: string
  req_type :: u16

record response =
  rsp_id :: string
  rsp_name :: string
  rsp_type :: u16
  rsp_rcode :: int
  rsp_resolved_at :: int
  rsp_wire :: bytes
  rsp_err :: string

record update =
  upd_name :: string
  upd_type :: u16
  upd_rcode :: int
  upd_resolved_at :: int
  upd_wire :: bytes

definition zero_request :: request where
  "zero_request = \<lparr>req_id = [], req_name = [], req_type = 0\<rparr>"

definition zero_response :: response where
  "zero_response = \<lparr>rsp_id = [], rsp_name = [], rsp_type = 0, rsp_rcode = 0,
     rsp_resolved_at = 0, rsp_wire = [], rsp_err = []\<rparr>"

definition zero_update :: update where
  "zero_update = \<lparr>upd_name = [], upd_type = 0, upd_rcode = 0, upd_resolved_at = 0,
     upd_wire = []\<rparr>"

section \<open>Marshalling\<close>

text \<open>
  The encoder of \<open>encoding/json\<close> replaces every byte that is not part of a well-formed UTF-8
  sequence by U+FFFD.  \<open>rune_size\<close> is the length of the sequence at the head of a string, 0 for
  none (the acceptance table of \<open>unicode/utf8\<close>).
\<close>

definition byte_in :: "nat \<Rightarrow> nat \<Rightarrow> string \<Rightarrow> nat \<Rightarrow> bool" where
  "byte_in lo hi s i \<longleftrightarrow> i < length s \<and> lo \<le> ord (s ! i) \<and> ord (s ! i) \<le> hi"

definition rune_size :: "string \<Rightarrow> nat" where
  "rune_size s =
     (if s = [] then 0
      else
        (let b = ord (hd s); cont = byte_in 128 191 s in
         if b < 128 then 1
         else if 194 \<le> b \<and> b \<le> 223 \<and> cont 1 then 2
         else if b = 224 \<and> byte_in 160 191 s 1 \<and> cont 2 then 3
         else if b = 237 \<and> byte_in 128 159 s 1 \<and> cont 2 then 3
         else if 225 \<le> b \<and> b \<le> 239 \<and> b \<noteq> 237 \<and> cont 1 \<and> cont 2 then 3
         else if b = 240 \<and> byte_in 144 191 s 1 \<and> cont 2 \<and> cont 3 then 4
         else if 241 \<le> b \<and> b \<le> 243 \<and> cont 1 \<and> cont 2 \<and> cont 3 then 4
         else if b = 244 \<and> byte_in 128 143 s 1 \<and> cont 2 \<and> cont 3 then 4
         else 0))"

definition replacement :: string where
  "replacement = [chr 239, chr 191, chr 189]"

function to_utf8 :: "string \<Rightarrow> string" where
  "to_utf8 s =
     (if s = [] then []
      else if rune_size s = 0 then replacement @ to_utf8 (tl s)
      else take (rune_size s) s @ to_utf8 (drop (rune_size s) s))"
  by auto
termination by (relation "measure length") auto

function valid_utf8 :: "string \<Rightarrow> bool" where
  "valid_utf8 s =
     (if s = [] then True
      else if rune_size s = 0 then False
      else valid_utf8 (drop (rune_size s) s))"
  by auto
termination by (relation "measure length") auto

declare to_utf8.simps [simp del] valid_utf8.simps [simp del]

definition j_str :: "string \<Rightarrow> json" where "j_str s = JStr (to_utf8 s)"

definition j_u16 :: "u16 \<Rightarrow> json" where "j_u16 t = JInt (uint t)"

definition omit_wire :: "bytes \<Rightarrow> (string \<times> json) list" where
  "omit_wire w = (if w = [] then [] else [(''wire'', JStr (std_encode w))])"

definition omit_err :: "string \<Rightarrow> (string \<times> json) list" where
  "omit_err e = (if e = [] then [] else [(''err'', j_str e)])"

definition marshal_request :: "request \<Rightarrow> json_text" where
  "marshal_request r =
     Json (JObj [(''id'', j_str (req_id r)), (''name'', j_str (req_name r)),
                 (''type'', j_u16 (req_type r))])"

definition marshal_response :: "response \<Rightarrow> json_text" where
  "marshal_response r =
     Json (JObj ([(''id'', j_str (rsp_id r)), (''name'', j_str (rsp_name r)),
                  (''type'', j_u16 (rsp_type r)), (''rcode'', JInt (rsp_rcode r)),
                  (''resolved_at'', JInt (rsp_resolved_at r))] @
                 omit_wire (rsp_wire r) @ omit_err (rsp_err r)))"

definition marshal_update :: "update \<Rightarrow> json_text" where
  "marshal_update u =
     Json (JObj ([(''name'', j_str (upd_name u)), (''type'', j_u16 (upd_type u)),
                  (''rcode'', JInt (upd_rcode u)),
                  (''resolved_at'', JInt (upd_resolved_at u))] @
                 omit_wire (upd_wire u)))"

section \<open>Unmarshalling\<close>

text \<open>
  One decoder per field type.  The first argument is the field's present value, which
  \<open>null\<close> leaves alone; \<open>None\<close> is an \<open>UnmarshalTypeError\<close> or a base64 error.
\<close>

fun un_string :: "string \<Rightarrow> json \<Rightarrow> string option" where
  "un_string old (JStr s) = Some s"
| "un_string old JNull = Some old"
| "un_string old _ = None"

fun un_u16 :: "u16 \<Rightarrow> json \<Rightarrow> u16 option" where
  "un_u16 old (JInt i) = (if 0 \<le> i \<and> i < 65536 then Some (word_of_int i) else None)"
| "un_u16 old JNull = Some old"
| "un_u16 old _ = None"

fun un_int64 :: "int \<Rightarrow> json \<Rightarrow> int option" where
  "un_int64 old (JInt i) = (if in_int64 i then Some i else None)"
| "un_int64 old JNull = Some old"
| "un_int64 old _ = None"

fun un_byte :: "json \<Rightarrow> char option" where
  "un_byte (JInt i) = (if 0 \<le> i \<and> i < 256 then Some (char_of (nat i)) else None)"
| "un_byte JNull = Some (char_of (0::nat))"
| "un_byte _ = None"

fun un_bytes :: "json \<Rightarrow> bytes option" where
  "un_bytes (JStr s) = std_decode s"
| "un_bytes (JArr vs) = those (map un_byte vs)"
| "un_bytes JNull = Some []"
| "un_bytes _ = None"

text \<open>Object keys match field names without regard to ASCII case; other keys are ignored.\<close>

definition set_request_field :: "request \<Rightarrow> string \<times> json \<Rightarrow> request option" where
  "set_request_field r kv =
     (let k = to_lower (fst kv); v = snd kv in
      if k = ''id'' then map_option (\<lambda>x. r\<lparr>req_id := x\<rparr>) (un_string (req_id r) v)
      else if k = ''name'' then map_option (\<lambda>x. r\<lparr>req_name := x\<rparr>) (un_string (req_name r) v)
      else if k = ''type'' then map_option (\<lambda>x. r\<lparr>req_type := x\<rparr>) (un_u16 (req_type r) v)
      else Some r)"

definition set_response_field :: "response \<Rightarrow> string \<times> json \<Rightarrow> response option" where
  "set_response_field r kv =
     (let k = to_lower (fst kv); v = snd kv in
      if k = ''id'' then map_option (\<lambda>x. r\<lparr>rsp_id := x\<rparr>) (un_string (rsp_id r) v)
      else if k = ''name'' then map_option (\<lambda>x. r\<lparr>rsp_name := x\<rparr>) (un_string (rsp_name r) v)
      else if k = ''type'' then map_option (\<lambda>x. r\<lparr>rsp_type := x\<rparr>) (un_u16 (rsp_type r) v)
      else if k = ''rcode'' then map_option (\<lambda>x. r\<lparr>rsp_rcode := x\<rparr>) (un_int64 (rsp_rcode r) v)
      else if k = ''resolved_at''
        then map_option (\<lambda>x. r\<lparr>rsp_resolved_at := x\<rparr>) (un_int64 (rsp_resolved_at r) v)
      else if k = ''wire'' then map_option (\<lambda>x. r\<lparr>rsp_wire := x\<rparr>) (un_bytes v)
      else if k = ''err'' then map_option (\<lambda>x. r\<lparr>rsp_err := x\<rparr>) (un_string (rsp_err r) v)
      else Some r)"

definition set_update_field :: "update \<Rightarrow> string \<times> json \<Rightarrow> update option" where
  "set_update_field u kv =
     (let k = to_lower (fst kv); v = snd kv in
      if k = ''name'' then map_option (\<lambda>x. u\<lparr>upd_name := x\<rparr>) (un_string (upd_name u) v)
      else if k = ''type'' then map_option (\<lambda>x. u\<lparr>upd_type := x\<rparr>) (un_u16 (upd_type u) v)
      else if k = ''rcode'' then map_option (\<lambda>x. u\<lparr>upd_rcode := x\<rparr>) (un_int64 (upd_rcode u) v)
      else if k = ''resolved_at''
        then map_option (\<lambda>x. u\<lparr>upd_resolved_at := x\<rparr>) (un_int64 (upd_resolved_at u) v)
      else if k = ''wire'' then map_option (\<lambda>x. u\<lparr>upd_wire := x\<rparr>) (un_bytes v)
      else Some u)"

fun set_fields :: "('s \<Rightarrow> string \<times> json \<Rightarrow> 's option) \<Rightarrow> 's \<Rightarrow> (string \<times> json) list \<Rightarrow> 's option"
where
  "set_fields f s [] = Some s"
| "set_fields f s (kv # kvs) =
     (case f s kv of None \<Rightarrow> None | Some s' \<Rightarrow> set_fields f s' kvs)"

fun unmarshal :: "('s \<Rightarrow> string \<times> json \<Rightarrow> 's option) \<Rightarrow> 's \<Rightarrow> json_text \<Rightarrow> 's option" where
  "unmarshal f zero (Json (JObj kvs)) = set_fields f zero kvs"
| "unmarshal f zero (Json JNull) = Some zero"
| "unmarshal f zero _ = None"

definition unmarshal_request :: "json_text \<Rightarrow> request option" where
  "unmarshal_request = unmarshal set_request_field zero_request"

definition unmarshal_response :: "json_text \<Rightarrow> response option" where
  "unmarshal_response = unmarshal set_response_field zero_response"

definition unmarshal_update :: "json_text \<Rightarrow> update option" where
  "unmarshal_update = unmarshal set_update_field zero_update"

text \<open>
  The payloads that survive the trip: text fields are UTF-8, and the Go structs hold a 64-bit
  \<open>int\<close> and an \<open>int64\<close>.
\<close>

definition wf_request :: "request \<Rightarrow> bool" where
  "wf_request r \<longleftrightarrow> valid_utf8 (req_id r) \<and> valid_utf8 (req_name r)"

definition wf_response :: "response \<Rightarrow> bool" where
  "wf_response r \<longleftrightarrow>
     valid_utf8 (rsp_id r) \<and> valid_utf8 (rsp_name r) \<and> valid_utf8 (rsp_err r) \<and>
     in_int64 (rsp_rcode r) \<and> in_int64 (rsp_resolved_at r)"

definition wf_update :: "update \<Rightarrow> bool" where
  "wf_update u \<longleftrightarrow>
     valid_utf8 (upd_name u) \<and> in_int64 (upd_rcode u) \<and> in_int64 (upd_resolved_at u)"

section \<open>Round trips\<close>

lemma un_u16_j_u16 [simp]: "un_u16 old (j_u16 t) = Some t"
proof -
  have "uint t < 2 ^ LENGTH(16)" by (rule uint_lt2p)
  then show ?thesis by (simp add: j_u16_def)
qed

lemma to_utf8_valid: "valid_utf8 s \<Longrightarrow> to_utf8 s = s"
proof (induction s rule: valid_utf8.induct)
  case (1 s)
  show ?case
  proof (cases "s = []")
    case True
    then show ?thesis by (simp add: to_utf8.simps [of "[]"])
  next
    case False
    with "1.prems" have r: "rune_size s \<noteq> 0" "valid_utf8 (drop (rune_size s) s)"
      by (simp_all add: valid_utf8.simps [of s] split: if_splits)
    with "1.IH" [OF False r] False show ?thesis by (simp add: to_utf8.simps [of s])
  qed
qed

lemma valid_utf8_Nil [simp]: "valid_utf8 []"
  by (simp add: valid_utf8.simps [of "[]"])

lemma valid_utf8_ascii: "list_all (\<lambda>c. ord c < (128 :: nat)) s \<Longrightarrow> valid_utf8 s"
proof (induction s)
  case (Cons c s)
  then have "rune_size (c # s) = 1" by (simp add: rune_size_def)
  with Cons show ?case by (simp add: valid_utf8.simps [of "c # s"])
qed simp

lemma un_string_j_str [simp]: "valid_utf8 s \<Longrightarrow> un_string old (j_str s) = Some s"
  by (simp add: j_str_def to_utf8_valid)

lemma to_lower_keys [simp]:
  "to_lower ''id'' = ''id''" "to_lower ''name'' = ''name''" "to_lower ''type'' = ''type''"
  "to_lower ''rcode'' = ''rcode''" "to_lower ''resolved_at'' = ''resolved_at''"
  "to_lower ''wire'' = ''wire''" "to_lower ''err'' = ''err''"
  by (simp_all add: to_lower_def to_lower_char_def)

lemma set_fields_append:
  "set_fields f s (xs @ ys) =
     (case set_fields f s xs of None \<Rightarrow> None | Some s' \<Rightarrow> set_fields f s' ys)"
  by (induction xs arbitrary: s) (auto split: option.splits)

lemma unmarshal_marshal_request: "wf_request r \<Longrightarrow> unmarshal_request (marshal_request r) = Some r"
  by (simp add: wf_request_def unmarshal_request_def marshal_request_def set_request_field_def zero_request_def)

lemma unmarshal_marshal_response:
  "wf_response r \<Longrightarrow> unmarshal_response (marshal_response r) = Some r"
  by (simp add: unmarshal_response_def marshal_response_def set_response_field_def
      zero_response_def wf_response_def omit_wire_def omit_err_def)

lemma unmarshal_marshal_update:
  "wf_update u \<Longrightarrow> unmarshal_update (marshal_update u) = Some u"
  by (simp add: unmarshal_update_def marshal_update_def set_update_field_def
      zero_update_def wf_update_def omit_wire_def)

interpretation request_json: codec marshal_request unmarshal_request wf_request
  by unfold_locales (rule unmarshal_marshal_request)

interpretation response_json: codec marshal_response unmarshal_response wf_response
  by unfold_locales (rule unmarshal_marshal_response)

interpretation update_json: codec marshal_update unmarshal_update wf_update
  by unfold_locales (rule unmarshal_marshal_update)

section \<open>Properties\<close>

text \<open>
  C36: Every payload survives the trip through Redis: decoding the JSON of a request, a
  response or an update whose text is UTF-8 and whose integers fit their Go types gives the
  payload back, the packed DNS message bit for bit whatever bytes it holds.
\<close>

theorem payload_roundtrip:
  assumes "wf_request q" "wf_response r" "wf_update u"
  shows "unmarshal_request (marshal_request q) = Some q \<and>
    unmarshal_response (marshal_response r) = Some r \<and>
    unmarshal_update (marshal_update u) = Some u"
  using assms by (simp add: request_json.dec_enc response_json.dec_enc update_json.dec_enc)

theorem payload_roundtrip_witness:
  "let q = \<lparr>req_id = ''7f'', req_name = ''example.com.'', req_type = 28\<rparr>;
       r = \<lparr>rsp_id = ''7f'', rsp_name = ''example.com.'', rsp_type = 28, rsp_rcode = 3,
            rsp_resolved_at = 1700000000000000000, rsp_wire = [chr 0, chr 255, chr 128, chr 10], rsp_err = []\<rparr>;
       u = \<lparr>upd_name = ''example.com.'', upd_type = 28, upd_rcode = 3,
            upd_resolved_at = 1700000000000000000, upd_wire = [chr 0, chr 255]\<rparr>
   in unmarshal_request (marshal_request q) = Some q \<and>
      unmarshal_response (marshal_response r) = Some r \<and>
      unmarshal_update (marshal_update u) = Some u"
  unfolding Let_def
  by (rule payload_roundtrip)
     (simp_all add: wf_request_def wf_response_def wf_update_def valid_utf8_ascii in_int64_def)

end
