(* ===== verification/Redisx.thy ===== *)
theory Redisx
  imports Prelude
begin

text \<open>
  \<open>internal/redisx/redisx.go\<close>: the Redis key layout, the construction of a client's
  connection options, and the keepalive loop.  The key layout's contract is that the
  key families never meet and that a key determines the name and the query type.
\<close>

section \<open>Key layout\<close>

definition StreamRequests :: string where "StreamRequests = ''dns:req''"
definition StreamResponses :: string where "StreamResponses = ''dns:resp''"
definition ChannelUpdates :: string where "ChannelUpdates = ''dns:updates''"
definition PrefixCache :: string where "PrefixCache = ''dns:cache:''"
definition HashHotDomains :: string where "HashHotDomains = ''dns:hot:domains''"
definition SetQueryCounts :: string where "SetQueryCounts = ''dns:count:q''"

definition CacheKey :: "string \<Rightarrow> u16 \<Rightarrow> string" where
  "CacheKey name qtype = PrefixCache @ name @ '':'' @ itoa (uint qtype)"

section \<open>Client construction\<close>

record tls_config =
  tls_server_name :: string
  tls_min_version :: string

record redis_options =
  opt_addr :: string
  opt_username :: string
  opt_password :: string
  opt_db :: int
  opt_pool_size :: int
  opt_min_idle :: int
  opt_tls :: "tls_config option"

fun first_index :: "string \<Rightarrow> char \<Rightarrow> int" where
  "first_index [] c = -1"
| "first_index (x # xs) c =
     (if x = c then 0 else let i = first_index xs c in if i < 0 then -1 else i + 1)"

text \<open>\<open>net.SplitHostPort\<close>: the host, or \<open>None\<close> where Go returns an error.\<close>

definition split_host :: "string \<Rightarrow> string option" where
  "split_host hp =
     (let i = last_index hp (CHR '':'') in
      if i < 0 then None
      else if hd hp = CHR ''['' then
        (let e = first_index hp (CHR '']'') in
         if e < 0 then None
         else if e + 1 \<noteq> i then None
         else if first_index (drop 1 hp) (CHR ''['') \<ge> 0 then None
         else if first_index (drop (nat (e + 1)) hp) (CHR '']'') \<ge> 0 then None
         else Some (take (nat e - 1) (drop 1 hp)))
      else
        (let host = take (nat i) hp in
         if first_index host (CHR '':'') \<ge> 0 then None
         else if first_index hp (CHR ''['') \<ge> 0 then None
         else if first_index hp (CHR '']'') \<ge> 0 then None
         else Some host))"

definition redisx_New ::
  "string \<Rightarrow> string \<Rightarrow> string \<Rightarrow> int \<Rightarrow> int \<Rightarrow> bool \<Rightarrow> string \<Rightarrow> redis_options" where
  "redisx_New addr username password db poolSize useTLS serverName =
     (let poolSize = (if poolSize < 1 then 4 else poolSize);
          opts = \<lparr>opt_addr = addr, opt_username = username, opt_password = password,
                  opt_db = db, opt_pool_size = poolSize, opt_min_idle = poolSize sdiv 2,
                  opt_tls = None\<rparr>
      in if useTLS then
           (let serverName =
              (if serverName = [] then
                 (case split_host addr of Some h \<Rightarrow> h | None \<Rightarrow> serverName)
               else serverName)
            in opts\<lparr>opt_tls := Some \<lparr>tls_server_name = serverName, tls_min_version = ''1.2''\<rparr>\<rparr>)
         else opts)"

section \<open>Keepalive\<close>

text \<open>
  One event of the keepalive goroutine: cancellation, or a tick with the outcome of its
  ping (\<open>None\<close> for success) and whether the context ended meanwhile.  \<open>StartKeepalive\<close>
  returns the number of pings sent and whether the goroutine has stopped.
\<close>

datatype keepalive_event = KDone | KTick "string option" bool

fun StartKeepalive :: "keepalive_event list \<Rightarrow> nat \<times> bool" where
  "StartKeepalive [] = (0, False)"
| "StartKeepalive (KDone # evs) = (0, True)"
| "StartKeepalive (KTick err ended # evs) =
     (let continue = (let (n, stopped) = StartKeepalive evs in (Suc n, stopped)) in
      case err of
        None \<Rightarrow> continue
      | Some e \<Rightarrow>
          if \<not> ended \<and> contains e ''client is closed'' then (1, True) else continue)"

section \<open>The contract of a keyed family\<close>

text \<open>
  A family of Redis keys indexed by a query (name and type): a key belongs to one query
  only, so two queries never share an entry.
\<close>

locale keyed_family =
  fixes key :: "string \<Rightarrow> 't \<Rightarrow> string" and known :: "'t \<Rightarrow> bool" and prefix :: string
  assumes key_inj:
      "known t \<Longrightarrow> known t' \<Longrightarrow> key n t = key n' t' \<Longrightarrow> n = n' \<and> t = t'"
    and key_prefix: "has_prefix (key n t) prefix"
begin

lemma store_other:
  "known t \<Longrightarrow> known t' \<Longrightarrow> (n, t) \<noteq> (n', t') \<Longrightarrow> (m(key n t \<mapsto> v)) (key n' t') = m (key n' t')"
  by (auto dest: key_inj)

lemma store_same: "(m(key n t \<mapsto> v)) (key n t) = Some v"
  by simp

lemma key_outside: "\<not> has_prefix k prefix \<Longrightarrow> key n t \<noteq> k"
  using key_prefix by metis

end

section \<open>Lemmas\<close>

lemma append_sep_inj:
  fixes s t s' t' :: string
  assumes "c \<notin> set t" "c \<notin> set t'" "s @ c # t = s' @ c # t'"
  shows "s = s' \<and> t = t'"
proof -
  have "int (length s) = last_index (s @ c # t) c"
    using assms(1) by (simp add: last_index_append)
  also have "\<dots> = int (length s')"
    unfolding assms(3) using assms(2) by (rule last_index_append)
  finally show ?thesis using assms(3) by simp
qed

lemma colon_notin_itoa: "CHR '':'' \<notin> set (itoa (uint (t :: u16)))"
  by (auto simp: itoa_def dest: digit_char_code_range)

lemma uint_inj16: "uint (s :: u16) = uint t \<longleftrightarrow> s = t"
  by (simp add: word_uint_eq_iff)

interpretation cache_keys: keyed_family CacheKey "\<lambda>_ :: u16. True" PrefixCache
proof
  fix n n' :: string and t t' :: u16
  assume "CacheKey n t = CacheKey n' t'"
  then have "n @ CHR '':'' # itoa (uint t) = n' @ CHR '':'' # itoa (uint t')"
    by (simp add: CacheKey_def)
  with colon_notin_itoa have "n = n' \<and> itoa (uint t) = itoa (uint t')"
    by (intro append_sep_inj) auto
  then show "n = n' \<and> t = t'"
    by (simp add: itoa_inj uint_inj16)
next
  show "has_prefix (CacheKey n t) PrefixCache" for n t
    by (simp add: CacheKey_def has_prefix_append)
qed

section \<open>Properties\<close>

text \<open>
  The key layout is collision free: a cache key determines the name and the query type
  (a name that itself contains colons included), and no cache key is the key of a stream,
  of the update channel, of the hot-domain hash or of the query counts.
\<close>

theorem CacheKey_collision_free:
  "(CacheKey n t = CacheKey n' t' \<longleftrightarrow> n = n' \<and> t = t') \<and>
   CacheKey n t \<notin> {StreamRequests, StreamResponses, ChannelUpdates, HashHotDomains, SetQueryCounts}"
proof -
  have "\<not> has_prefix k PrefixCache"
    if "k \<in> {StreamRequests, StreamResponses, ChannelUpdates, HashHotDomains, SetQueryCounts}" for k
    using that by (auto simp: StreamRequests_def StreamResponses_def ChannelUpdates_def
        HashHotDomains_def SetQueryCounts_def PrefixCache_def)
  then have "CacheKey n t \<noteq> k"
    if "k \<in> {StreamRequests, StreamResponses, ChannelUpdates, HashHotDomains, SetQueryCounts}" for k
    using that by (intro cache_keys.key_outside) auto
  then show ?thesis using cache_keys.key_inj [of n t n' t'] by auto
qed

definition keepalive_ends :: "keepalive_event \<Rightarrow> bool" where
  "keepalive_ends ev =
     (case ev of
        KDone \<Rightarrow> True
      | KTick err ended \<Rightarrow> \<not> ended \<and> (case err of None \<Rightarrow> False | Some e \<Rightarrow> contains e ''client is closed''))"

text \<open>
  A keepalive goroutine stops exactly when its context ends or when a ping under a live
  context reports a closed client, and until then it sends one ping per tick: no other ping
  failure ends it.
\<close>

theorem StartKeepalive_stops:
  "(snd (StartKeepalive evs) \<longleftrightarrow> (\<exists>ev \<in> set evs. keepalive_ends ev)) \<and>
   fst (StartKeepalive evs) =
     length (takeWhile (\<lambda>ev. \<not> keepalive_ends ev) evs) +
     (case dropWhile (\<lambda>ev. \<not> keepalive_ends ev) evs of KTick err ended # es \<Rightarrow> 1 | _ \<Rightarrow> 0)"
  by (induction evs rule: StartKeepalive.induct)
     (auto simp: keepalive_ends_def Let_def split: option.splits prod.splits)

end
