(* ===== verification/World.thy ===== *)
theory World
  imports NetIP Proto Redisx "HOL-Library.State_Monad"
begin

text \<open>
  The boundary of the program.  The DNS library (\<open>github.com/miekg/dns\<close>), the Redis server
  behind \<open>go-redis\<close>, the upstream resolver and the network probes are not part of this
  repository: they are the fields of the record \<open>env\<close>, an argument of every definition
  that uses them, and what a property relies on is stated about them as a named predicate.
  The DNS message type is the library's, with the fields the program reads and writes.

  Code that talks to the outside runs in HOL-Library's state monad over a \<open>world\<close>: the
  Redis contents (opaque), the list of the commands issued so far, a step counter that
  indexes the readings of the clock and of the network, and the server's count queue.
\<close>

section \<open>DNS messages\<close>

record rr_header =
  rr_name :: string
  rr_type :: u16
  rr_class :: u16
  rr_ttl :: u32

text \<open>A resource record: the concrete types the source tests for, and any other one.\<close>

datatype rr =
    RR_A (Hdr: rr_header) (addr: ip)
  | RR_AAAA (Hdr: rr_header) (addr: ip)
  | RR_SOA (Hdr: rr_header) (Minttl: u32) (rdata: string)
  | RR_Other (Hdr: rr_header) (rdata: string)

record question =
  q_name :: string
  q_type :: u16
  q_class :: u16

record dns_msg =
  m_id :: u16
  m_response :: bool
  m_opcode :: int
  m_authoritative :: bool
  m_truncated :: bool
  m_recursion_desired :: bool
  m_recursion_available :: bool
  m_authenticated_data :: bool
  m_checking_disabled :: bool
  m_rcode :: int
  m_question :: "question list"
  m_answer :: "rr list"
  m_ns :: "rr list"
  m_extra :: "rr list"

text \<open>Constants of the DNS protocol (RFC 1035, RFC 3596).\<close>

definition RcodeSuccess :: int where "RcodeSuccess = 0"
definition RcodeFormatError :: int where "RcodeFormatError = 1"
definition RcodeServerFailure :: int where "RcodeServerFailure = 2"
definition RcodeNameError :: int where "RcodeNameError = 3"
definition TypeA :: u16 where "TypeA = 1"
definition TypeAAAA :: u16 where "TypeAAAA = 28"

lemmas dns_constants [go_eval] =
  RcodeSuccess_def RcodeFormatError_def RcodeServerFailure_def RcodeNameError_def
  TypeA_def TypeAAAA_def

section \<open>Redis commands and replies\<close>

text \<open>The commands the program issues, with the arguments it passes.\<close>

datatype redis_cmd =
    PING
  | GET string
  | SET string bytes duration
  | XADD string "int option" json_text
  | XREAD string string
  | XREADGROUP string string string
  | XACK string string string
  | XGROUP_CREATE_MKSTREAM string string string
  | PUBLISH string json_text
  | HGETALL string
  | HSET string "(string \<times> string) list"
  | HINCRBY string string int
  | EXPIRE string duration
  | ZINCRBY string real string
  | ZREVRANGEBYSCORE string real int
  | ZUNIONSTORE string "(string \<times> real) list"
  | ZREMRANGEBYSCORE_NEGINF string real
  | ZREMRANGEBYRANK string int int

record xmessage =
  xm_id :: string
  xm_values :: "(string \<times> json_text) list"

text \<open>What \<open>go-redis\<close> hands back: an error, the nil reply, or a value of the command's type.\<close>

datatype redis_reply =
    RErr string
  | RNil
  | ROk
  | RBytes bytes
  | RHash "(string \<times> string) list"
  | RScored "(string \<times> real) list"
  | RMessages "xmessage list"

fun reply_err :: "redis_reply \<Rightarrow> string option" where
  "reply_err (RErr e) = Some e"
| "reply_err RNil = Some ''redis: nil''"
| "reply_err _ = None"

section \<open>Probe results\<close>

record tcpResult =
  t_ip :: ip
  t_portIdx :: nat
  t_port :: int
  t_rtt :: duration
  t_ok :: bool

record icmpResult =
  i_ip :: ip
  i_rtt :: duration
  i_ok :: bool

text \<open>What \<open>select\<close> can deliver to a race: a probe's report, the TCP deadline, the budget's end.\<close>

datatype race_event =
    TcpMsg tcpResult
  | IcmpMsg icmpResult
  | DeadlineC
  | CtxDone

section \<open>The environment and the world\<close>

record 'r env =
  Fqdn :: "string \<Rightarrow> string"
  type_string :: "u16 \<Rightarrow> string"
  StringToType :: "string \<Rightarrow> u16 option"
  SetReply :: "dns_msg \<Rightarrow> dns_msg"
  Pack :: "dns_msg \<Rightarrow> string + bytes"
  Unpack :: "bytes \<Rightarrow> string + dns_msg"
  SetQuestion :: "nat \<Rightarrow> string \<Rightarrow> u16 \<Rightarrow> dns_msg"
  Exchange :: "nat \<Rightarrow> string \<Rightarrow> duration \<Rightarrow> dns_msg \<Rightarrow> string \<Rightarrow> string + dns_msg"
  probes :: "nat \<Rightarrow> ip list \<Rightarrow> race_event list"
  redis :: "timestamp \<Rightarrow> redis_cmd \<Rightarrow> 'r \<Rightarrow> redis_reply \<times> 'r"
  clock :: "nat \<Rightarrow> timestamp"

record 'r world =
  store :: 'r
  cmds :: "redis_cmd list"
  ticks :: nat
  countCh :: "string list"

type_synonym ('r, 'a) io = "('r world, 'a) state"

text \<open>Reading the clock, issuing a command, asking the network: each takes one step.\<close>

definition tick :: "('r, nat) io" where
  "tick = State (\<lambda>w. (ticks w, w\<lparr>ticks := Suc (ticks w)\<rparr>))"

definition now :: "'r env \<Rightarrow> ('r, timestamp) io" where
  "now E = State (\<lambda>w. (clock E (ticks w), w\<lparr>ticks := Suc (ticks w)\<rparr>))"

definition call :: "'r env \<Rightarrow> redis_cmd \<Rightarrow> ('r, redis_reply) io" where
  "call E c = State (\<lambda>w.
     (let (rep, st) = redis E (clock E (ticks w)) c (store w)
      in (rep, w\<lparr>store := st, cmds := cmds w @ [c], ticks := Suc (ticks w)\<rparr>)))"

definition ret :: "'a \<Rightarrow> ('r, 'a) io" where
  "ret = State_Monad.return"

text \<open>\<open>pipe.Exec\<close>: the commands in order; the first error reply is the error.\<close>

fun pipeline :: "'r env \<Rightarrow> redis_cmd list \<Rightarrow> ('r, string option) io" where
  "pipeline E [] = ret None"
| "pipeline E (c # cs) =
     do { rep \<leftarrow> call E c;
          rest \<leftarrow> pipeline E cs;
          ret (case reply_err rep of Some e \<Rightarrow> Some e | None \<Rightarrow> rest) }"

text \<open>A loop over a list whose body threads an accumulator.\<close>

fun foldM :: "('a \<Rightarrow> 'b \<Rightarrow> ('r, 'a) io) \<Rightarrow> 'a \<Rightarrow> 'b list \<Rightarrow> ('r, 'a) io" where
  "foldM f a [] = ret a"
| "foldM f a (x # xs) = do { a' \<leftarrow> f a x; foldM f a' xs }"

section \<open>Running the monad\<close>

lemma run_bind [simp]:
  "run_state (State_Monad.bind m f) w = (let (a, w') = run_state m w in run_state (f a) w')"
  by (simp add: State_Monad.bind_def split: prod.splits)

lemma run_ret [simp]: "run_state (ret a) w = (a, w)"
  by (simp add: ret_def State_Monad.return_def)

lemma run_tick [simp]: "run_state tick w = (ticks w, w\<lparr>ticks := Suc (ticks w)\<rparr>)"
  by (simp add: tick_def)

lemma run_now [simp]:
  "run_state (now E) w = (clock E (ticks w), w\<lparr>ticks := Suc (ticks w)\<rparr>)"
  by (simp add: now_def)

lemma run_call [simp]:
  "run_state (call E c) w =
     (let (rep, st) = redis E (clock E (ticks w)) c (store w)
      in (rep, w\<lparr>store := st, cmds := cmds w @ [c], ticks := Suc (ticks w)\<rparr>))"
  by (simp add: call_def)

section \<open>Which commands a computation can issue\<close>

text \<open>
  \<open>emits P m\<close>: whatever the outside answers, running \<open>m\<close> only appends to the trace, and only
  commands that satisfy \<open>P\<close>; it leaves the count queue alone, and steps are not undone.
\<close>

definition emits :: "(redis_cmd \<Rightarrow> bool) \<Rightarrow> ('r, 'a) io \<Rightarrow> bool" where
  "emits P m \<longleftrightarrow>
     (\<forall>w. \<exists>cs. cmds (snd (run_state m w)) = cmds w @ cs \<and> list_all P cs \<and>
        countCh (snd (run_state m w)) = countCh w \<and> ticks w \<le> ticks (snd (run_state m w)))"

named_theorems emits_rules

lemma emits_ret [emits_rules]: "emits P (ret a)"
  by (simp add: emits_def)

lemma emits_tick [emits_rules]: "emits P tick"
  by (simp add: emits_def)

lemma emits_now [emits_rules]: "emits P (now E)"
  by (simp add: emits_def)

lemma emits_call [emits_rules]: "P c \<Longrightarrow> emits P (call E c)"
  by (simp add: emits_def split: prod.splits)

lemma emits_bind [emits_rules]:
  assumes "emits P m" "\<And>a. emits P (f a)"
  shows "emits P (State_Monad.bind m f)"
  unfolding emits_def
proof
  fix w
  obtain a w' where m: "run_state m w = (a, w')" by fastforce
  from assms(1) m obtain cs where cs: "cmds w' = cmds w @ cs" "list_all P cs"
      "countCh w' = countCh w" "ticks w \<le> ticks w'"
    unfolding emits_def by (metis snd_conv)
  from assms(2) obtain ds where ds: "cmds (snd (run_state (f a) w')) = cmds w' @ ds"
      "list_all P ds" "countCh (snd (run_state (f a) w')) = countCh w'"
      "ticks w' \<le> ticks (snd (run_state (f a) w'))"
    unfolding emits_def by meson
  show "\<exists>cs. cmds (snd (run_state (State_Monad.bind m f) w)) = cmds w @ cs \<and> list_all P cs \<and>
      countCh (snd (run_state (State_Monad.bind m f) w)) = countCh w \<and>
      ticks w \<le> ticks (snd (run_state (State_Monad.bind m f) w))"
    using m cs ds by (intro exI [of _ "cs @ ds"]) simp
qed

lemma emits_if [emits_rules]:
  "\<lbrakk>b \<Longrightarrow> emits P m; \<not> b \<Longrightarrow> emits P n\<rbrakk> \<Longrightarrow> emits P (if b then m else n)"
  by simp

lemma emits_option [emits_rules]:
  "\<lbrakk>emits P m; \<And>x. emits P (f x)\<rbrakk> \<Longrightarrow> emits P (case v of None \<Rightarrow> m | Some x \<Rightarrow> f x)"
  by (cases v) simp_all

lemma emits_sum [emits_rules]:
  "\<lbrakk>\<And>x. emits P (f x); \<And>x. emits P (g x)\<rbrakk> \<Longrightarrow> emits P (case v of Inl x \<Rightarrow> f x | Inr x \<Rightarrow> g x)"
  by (cases v) simp_all

lemma emits_prod [emits_rules]:
  "(\<And>x y. emits P (f x y)) \<Longrightarrow> emits P (case v of (x, y) \<Rightarrow> f x y)"
  by (cases v) simp

lemma emits_reply [emits_rules]:
  "\<lbrakk>\<And>e. emits P (f1 e); emits P f2; emits P f3; \<And>b. emits P (f4 b); \<And>h. emits P (f5 h);
    \<And>z. emits P (f6 z); \<And>ms. emits P (f7 ms)\<rbrakk> \<Longrightarrow>
   emits P (case v of RErr e \<Rightarrow> f1 e | RNil \<Rightarrow> f2 | ROk \<Rightarrow> f3 | RBytes b \<Rightarrow> f4 b
     | RHash h \<Rightarrow> f5 h | RScored z \<Rightarrow> f6 z | RMessages ms \<Rightarrow> f7 ms)"
  by (cases v) simp_all

lemma emits_let [emits_rules]: "emits P (f v) \<Longrightarrow> emits P (Let v f)"
  by simp

lemma emits_pipeline [emits_rules]: "list_all P cs \<Longrightarrow> emits P (pipeline E cs)"
  by (induction cs) (auto intro!: emits_rules)

lemma emits_foldM [emits_rules]: "(\<And>a x. emits P (f a x)) \<Longrightarrow> emits P (foldM f a xs)"
  by (induction xs arbitrary: a) (auto intro!: emits_rules)

lemma emits_foldM_set:
  "(\<And>a x. x \<in> set xs \<Longrightarrow> emits P (f a x)) \<Longrightarrow> emits P (foldM f a xs)"
  by (induction xs arbitrary: a) (simp_all add: emits_ret emits_bind)

lemma emits_mono: "emits P m \<Longrightarrow> (\<And>c. P c \<Longrightarrow> Q c) \<Longrightarrow> emits Q m"
  unfolding emits_def by (metis (mono_tags, lifting) list.pred_mono_strong)

lemma emitsE:
  assumes "emits P m" "run_state m w = (a, w')"
  obtains cs where "cmds w' = cmds w @ cs" "list_all P cs" "countCh w' = countCh w"
    "ticks w \<le> ticks w'"
  using assms unfolding emits_def by (metis snd_conv)

end
