(* ===== verification/Race.thy ===== *)
theory Race
  imports World "HOL-Library.Multiset" "HOL-Library.Sublist"
begin

text \<open>
  \<open>internal/resolver/race.go\<close> without the preference cache: the probe race
  (\<open>pickWinner\<close>) and the message surgery around it (\<open>answerIPs\<close>, \<open>recordIP\<close>, \<open>ipIn\<close>,
  \<open>narrow\<close>).  The \<open>select\<close> loop of the race is a step function over a state record; the
  order in which the runtime delivers probe reports and timers is a list of events, so a
  statement about every list is a statement about every interleaving.
\<close>

section \<open>Configuration\<close>

record raceConfig =
  rc_ports :: "int list"
  rc_timeout :: duration
  rc_tcpDeadline :: duration
  rc_ping :: bool

definition EnableRace :: "int list \<Rightarrow> duration \<Rightarrow> duration \<Rightarrow> bool \<Rightarrow> raceConfig" where
  "EnableRace ports timeout tcpDeadline icmp =
     (let ports = (if length ports = 0 then [443, 80] else ports);
          timeout = (if timeout \<le> 0 then second else timeout)
      in \<lparr>rc_ports = ports, rc_timeout = timeout, rc_tcpDeadline = tcpDeadline, rc_ping = icmp\<rparr>)"

section \<open>Addresses of an answer\<close>

definition recordIP :: "rr \<Rightarrow> u16 \<Rightarrow> ip option" where
  "recordIP r qtype =
     (if qtype = TypeA then (case r of RR_A h a \<Rightarrow> Some a | _ \<Rightarrow> None)
      else if qtype = TypeAAAA then (case r of RR_AAAA h a \<Rightarrow> Some a | _ \<Rightarrow> None)
      else None)"

fun answerIPs_loop :: "rr list \<Rightarrow> u16 \<Rightarrow> string set \<Rightarrow> ip list" where
  "answerIPs_loop [] qtype seen = []"
| "answerIPs_loop (r # rs) qtype seen =
     (case recordIP r qtype of
        None \<Rightarrow> answerIPs_loop rs qtype seen
      | Some p \<Rightarrow>
          (let key = ip_string p in
           if key \<notin> seen then p # answerIPs_loop rs qtype (insert key seen)
           else answerIPs_loop rs qtype seen))"

definition answerIPs :: "dns_msg \<Rightarrow> u16 \<Rightarrow> ip list" where
  "answerIPs msg qtype = answerIPs_loop (m_answer msg) qtype {}"

fun ipIn :: "ip list \<Rightarrow> ip \<Rightarrow> bool" where
  "ipIn [] want = False"
| "ipIn (p # ps) want = (if ip_equal p want then True else ipIn ps want)"

definition narrow :: "dns_msg \<Rightarrow> u16 \<Rightarrow> ip \<Rightarrow> dns_msg" where
  "narrow msg qtype winner =
     msg\<lparr>m_answer := filter (\<lambda>r. case recordIP r qtype of
                                   Some p \<Rightarrow> ip_equal p winner
                                 | None \<Rightarrow> True) (m_answer msg)\<rparr>"

section \<open>The race\<close>

text \<open>An outcome is (winning address, how it won, its round trip); the nil address is "nobody".\<close>

type_synonym outcome = "ip \<times> string \<times> duration"

record race_state =
  tcpPending :: int
  icmpPending :: int
  tcpLive :: bool
  fallback :: "tcpResult option"
  bestICMP :: "icmpResult option"

definition tcpWin :: "tcpResult \<Rightarrow> outcome" where
  "tcpWin r = (t_ip r, ''tcp/'' @ itoa (t_port r), t_rtt r)"

definition icmpWin :: "icmpResult \<Rightarrow> outcome" where
  "icmpWin p = (i_ip p, ''icmp'', i_rtt p)"

definition nobody :: outcome where
  "nobody = (nil_ip, [], 0)"

definition effective_timeout :: "duration \<Rightarrow> duration" where
  "effective_timeout timeout = (if timeout \<le> 0 then second else timeout)"

definition effective_deadline :: "duration \<Rightarrow> duration \<Rightarrow> bool \<Rightarrow> duration" where
  "effective_deadline timeout tcpDeadline ping =
     (let timeout = effective_timeout timeout in
      if tcpDeadline \<le> 0 \<or> tcpDeadline \<ge> timeout
      then (if ping then timeout sdiv 2 else timeout)
      else tcpDeadline)"

text \<open>The tests at the head of the loop: terminal states reachable without another event.\<close>

definition race_check :: "race_state \<Rightarrow> outcome option" where
  "race_check s =
     (if tcpPending s = 0 \<and> fallback s \<noteq> None then Some (tcpWin (the (fallback s)))
      else if (tcpPending s = 0 \<or> \<not> tcpLive s) \<and> bestICMP s \<noteq> None
        then Some (icmpWin (the (bestICMP s)))
      else if tcpPending s = 0 \<and> icmpPending s = 0 then Some nobody
      else if \<not> tcpLive s \<and> icmpPending s = 0 then Some nobody
      else None)"

definition hold :: "tcpResult option \<Rightarrow> tcpResult \<Rightarrow> tcpResult option" where
  "hold f r =
     (case f of None \<Rightarrow> Some r | Some x \<Rightarrow> if t_rtt r < t_rtt x then Some r else Some x)"

definition better :: "icmpResult option \<Rightarrow> icmpResult \<Rightarrow> icmpResult option" where
  "better b p =
     (if \<not> i_ok p then b
      else case b of None \<Rightarrow> Some p | Some x \<Rightarrow> if i_rtt p < i_rtt x then Some p else Some x)"

text \<open>One \<open>select\<close>: \<open>Inl\<close> returns from \<open>pickWinner\<close>, \<open>Inr\<close> goes round the loop.\<close>

fun race_step :: "race_state \<Rightarrow> race_event \<Rightarrow> outcome + race_state" where
  "race_step s (TcpMsg r) =
     (let s1 = s\<lparr>tcpPending := tcpPending s - 1\<rparr> in
      if tcpLive s1 \<and> t_ok r \<and> t_portIdx r = 0 then Inl (tcpWin r)
      else
        (let s2 = (if tcpLive s1 \<and> t_ok r then s1\<lparr>fallback := hold (fallback s1) r\<rparr> else s1)
         in if tcpPending s2 = 0 \<and> fallback s2 = None \<and> bestICMP s2 = None \<and> icmpPending s2 > 0
            then Inr (s2\<lparr>tcpLive := False\<rparr>) else Inr s2))"
| "race_step s (IcmpMsg p) =
     Inr (s\<lparr>icmpPending := icmpPending s - 1, bestICMP := better (bestICMP s) p\<rparr>)"
| "race_step s DeadlineC =
     (case fallback s of
        Some r \<Rightarrow> Inl (tcpWin r)
      | None \<Rightarrow>
          (case bestICMP s of
             Some p \<Rightarrow> Inl (icmpWin p)
           | None \<Rightarrow> if icmpPending s = 0 then Inl nobody else Inr (s\<lparr>tcpLive := False\<rparr>)))"
| "race_step s CtxDone =
     (case bestICMP s of
        Some p \<Rightarrow> Inl (icmpWin p)
      | None \<Rightarrow> (case fallback s of Some r \<Rightarrow> Inl (tcpWin r) | None \<Rightarrow> Inl nobody))"

text \<open>\<open>None\<close>: the events so far leave the race waiting in its \<open>select\<close>.\<close>

fun race_loop :: "race_state \<Rightarrow> race_event list \<Rightarrow> outcome option" where
  "race_loop s [] = race_check s"
| "race_loop s (e # es) =
     (case race_check s of
        Some out \<Rightarrow> Some out
      | None \<Rightarrow>
          (case race_step s e of Inl out \<Rightarrow> Some out | Inr s' \<Rightarrow> race_loop s' es))"

definition race_init :: "nat \<Rightarrow> nat \<Rightarrow> bool \<Rightarrow> race_state" where
  "race_init nips nports ping =
     \<lparr>tcpPending = int (nips * nports), icmpPending = (if ping then int nips else 0),
      tcpLive = True, fallback = None, bestICMP = None\<rparr>"

definition pickWinner :: "ip list \<Rightarrow> int list \<Rightarrow> bool \<Rightarrow> race_event list \<Rightarrow> outcome option" where
  "pickWinner ips ports ping evs = race_loop (race_init (length ips) (length ports) ping) evs"

section \<open>Which event lists can occur\<close>

definition tcp_reports :: "race_event list \<Rightarrow> tcpResult list" where
  "tcp_reports evs = List.map_filter (\<lambda>e. case e of TcpMsg r \<Rightarrow> Some r | _ \<Rightarrow> None) evs"

definition icmp_reports :: "race_event list \<Rightarrow> icmpResult list" where
  "icmp_reports evs = List.map_filter (\<lambda>e. case e of IcmpMsg p \<Rightarrow> Some p | _ \<Rightarrow> None) evs"

definition launched_tcp :: "ip list \<Rightarrow> int list \<Rightarrow> (ip \<times> nat \<times> int) list" where
  "launched_tcp ips ports = concat (map (\<lambda>p. map (\<lambda>i. (p, i, ports ! i)) [0..<length ports]) ips)"

text \<open>Each launched probe reports at most once, and nothing else reports; the timer fires once.\<close>

definition possible_events :: "ip list \<Rightarrow> int list \<Rightarrow> bool \<Rightarrow> race_event list \<Rightarrow> bool" where
  "possible_events ips ports ping evs \<longleftrightarrow>
     mset (map (\<lambda>r. (t_ip r, t_portIdx r, t_port r)) (tcp_reports evs))
       \<subseteq># mset (launched_tcp ips ports) \<and>
     mset (map i_ip (icmp_reports evs)) \<subseteq># (if ping then mset ips else {#}) \<and>
     length (filter (\<lambda>e. e = DeadlineC) evs) \<le> 1"

text \<open>Before the handover: no timer has fired and no first-port dial has succeeded.\<close>

fun quiet :: "race_event \<Rightarrow> bool" where
  "quiet (TcpMsg r) = (\<not> (t_ok r \<and> t_portIdx r = 0))"
| "quiet (IcmpMsg p) = True"
| "quiet DeadlineC = False"
| "quiet CtxDone = False"

definition held :: "tcpResult option \<Rightarrow> race_event list \<Rightarrow> tcpResult option" where
  "held f evs = foldl hold f (filter t_ok (tcp_reports evs))"

definition fastest :: "icmpResult option \<Rightarrow> race_event list \<Rightarrow> icmpResult option" where
  "fastest b evs = foldl better b (icmp_reports evs)"

section \<open>Lemmas: addresses\<close>

lemma ipIn_iff: "ipIn ips want \<longleftrightarrow> (\<exists>p \<in> set ips. ip_equal p want)"
  by (induction ips) auto

lemma answerIPs_loop_set:
  "ip_string ` set (answerIPs_loop rs qtype seen) =
     {ip_string p | p. \<exists>r \<in> set rs. recordIP r qtype = Some p} - seen"
  by (induction rs qtype seen rule: answerIPs_loop.induct)
     (auto simp: Let_def split: option.splits)

lemma answerIPs_loop_distinct: "distinct (map ip_string (answerIPs_loop rs qtype seen))"
  by (induction rs qtype seen rule: answerIPs_loop.induct)
     (use answerIPs_loop_set in \<open>fastforce simp: Let_def image_iff split: option.splits\<close>)+

lemma answerIPs_loop_from:
  "p \<in> set (answerIPs_loop rs qtype seen) \<Longrightarrow> \<exists>r \<in> set rs. recordIP r qtype = Some p"
  by (induction rs qtype seen rule: answerIPs_loop.induct)
     (auto simp: Let_def split: option.splits if_splits)

lemma answerIPs_from:
  "p \<in> set (answerIPs msg qtype) \<Longrightarrow> \<exists>r \<in> set (m_answer msg). recordIP r qtype = Some p"
  unfolding answerIPs_def by (rule answerIPs_loop_from)

lemma narrow_fields [simp]:
  "m_rcode (narrow msg qtype w) = m_rcode msg" "m_ns (narrow msg qtype w) = m_ns msg"
  "m_extra (narrow msg qtype w) = m_extra msg" "m_question (narrow msg qtype w) = m_question msg"
  "m_id (narrow msg qtype w) = m_id msg"
  by (simp_all add: narrow_def)

lemma narrow_answer_subseq: "subseq (m_answer (narrow msg qtype w)) (m_answer msg)"
  by (simp add: narrow_def)

lemma narrow_keeps_other:
  "r \<in> set (m_answer msg) \<Longrightarrow> recordIP r qtype = None \<Longrightarrow> r \<in> set (m_answer (narrow msg qtype w))"
  by (simp add: narrow_def)

lemma narrow_addresses:
  "r \<in> set (m_answer (narrow msg qtype w)) \<Longrightarrow> recordIP r qtype = Some p \<Longrightarrow> ip_equal p w"
  by (auto simp: narrow_def)

lemma narrow_keeps_winner:
  "r \<in> set (m_answer msg) \<Longrightarrow> recordIP r qtype = Some p \<Longrightarrow> ip_equal p w \<Longrightarrow>
   r \<in> set (m_answer (narrow msg qtype w))"
  by (simp add: narrow_def)

lemma distinct_constant_singleton:
  assumes "xs \<noteq> []" "\<forall>x \<in> set xs. f x = c" "distinct (map f xs)"
  obtains x where "xs = [x]"
proof (cases xs)
  case Nil
  with assms(1) show ?thesis by simp
next
  case (Cons x ys)
  with assms(2,3) have "ys = []" by (cases ys) auto
  with Cons that show ?thesis by simp
qed

text \<open>Narrowing to an address of the answer leaves exactly that address.\<close>

lemma answerIPs_narrow:
  assumes "p \<in> set (answerIPs msg qtype)" "ip_equal p w"
  shows "\<exists>q. answerIPs (narrow msg qtype w) qtype = [q] \<and> ip_equal q w"
proof -
  let ?N = "narrow msg qtype w" and ?ips = "answerIPs (narrow msg qtype w) qtype"
  from assms(1) obtain r where r: "r \<in> set (m_answer msg)" "recordIP r qtype = Some p"
    by (blast dest: answerIPs_from)
  with assms(2) have rN: "r \<in> set (m_answer ?N)" by (blast intro: narrow_keeps_winner)
  have all: "ip_equal q w" if "q \<in> set ?ips" for q
    using that by (blast dest: answerIPs_from narrow_addresses)
  have "ip_string ` set ?ips = {ip_string p | p. \<exists>r \<in> set (m_answer ?N). recordIP r qtype = Some p}"
    unfolding answerIPs_def by (subst answerIPs_loop_set) simp
  with rN r(2) have "?ips \<noteq> []" by fastforce
  moreover have "\<forall>q \<in> set ?ips. ip_string q = ip_string w"
    using all ip_string_cong by blast
  moreover have "distinct (map ip_string ?ips)"
    unfolding answerIPs_def by (rule answerIPs_loop_distinct)
  ultimately obtain q where "?ips = [q]" by (rule distinct_constant_singleton)
  with all show ?thesis by auto
qed

section \<open>Lemmas: event lists\<close>

lemma reports_simps [simp]:
  "tcp_reports [] = []" "icmp_reports [] = []"
  "tcp_reports (TcpMsg r # es) = r # tcp_reports es" "icmp_reports (TcpMsg r # es) = icmp_reports es"
  "tcp_reports (IcmpMsg p # es) = tcp_reports es" "icmp_reports (IcmpMsg p # es) = p # icmp_reports es"
  "tcp_reports (DeadlineC # es) = tcp_reports es" "icmp_reports (DeadlineC # es) = icmp_reports es"
  "tcp_reports (CtxDone # es) = tcp_reports es" "icmp_reports (CtxDone # es) = icmp_reports es"
  by (simp_all add: tcp_reports_def icmp_reports_def List.map_filter_def)

lemma tcp_reports_mem: "TcpMsg r \<in> set evs \<longleftrightarrow> r \<in> set (tcp_reports evs)"
  by (force simp: tcp_reports_def List.map_filter_def split: race_event.splits)

lemma icmp_reports_mem: "IcmpMsg p \<in> set evs \<longleftrightarrow> p \<in> set (icmp_reports evs)"
  by (force simp: icmp_reports_def List.map_filter_def split: race_event.splits)

lemma length_launched [simp]: "length (launched_tcp ips ports) = length ips * length ports"
  by (induction ips) (auto simp: launched_tcp_def)

lemma launched_tcp_mem:
  "(p, i, port) \<in> set (launched_tcp ips ports) \<longleftrightarrow>
     p \<in> set ips \<and> i < length ports \<and> port = ports ! i"
  by (auto simp: launched_tcp_def image_iff)

lemma possibleD:
  assumes "possible_events ips ports ping evs"
  shows "mset (map (\<lambda>r. (t_ip r, t_portIdx r, t_port r)) (tcp_reports evs))
      \<subseteq># mset (launched_tcp ips ports)"
    and "mset (map i_ip (icmp_reports evs)) \<subseteq># (if ping then mset ips else {#})"
  using assms unfolding possible_events_def by simp_all

lemma possible_tcp:
  assumes "possible_events ips ports ping evs" "TcpMsg r \<in> set evs"
  shows "t_ip r \<in> set ips \<and> t_portIdx r < length ports \<and> t_port r = ports ! t_portIdx r"
proof -
  have "(t_ip r, t_portIdx r, t_port r) \<in> set (launched_tcp ips ports)"
    using set_mset_mono [OF possibleD(1) [OF assms(1)]] assms(2) by (auto simp: tcp_reports_mem)
  then show ?thesis by (simp add: launched_tcp_mem)
qed

lemma possible_icmp:
  assumes "possible_events ips ports ping evs" "IcmpMsg p \<in> set evs"
  shows "ping \<and> i_ip p \<in> set ips"
  using set_mset_mono [OF possibleD(2) [OF assms(1)]] assms(2)
  by (auto simp: icmp_reports_mem split: if_splits)

lemma possible_counts:
  assumes "possible_events ips ports ping evs"
  shows "length (tcp_reports evs) \<le> length ips * length ports"
    and "length (icmp_reports evs) \<le> (if ping then length ips else 0)"
  using size_mset_mono [OF possibleD(1) [OF assms]] size_mset_mono [OF possibleD(2) [OF assms]]
  by (simp_all split: if_splits)

section \<open>Lemmas: the loop\<close>

lemma race_check_live:
  "tcpLive s \<Longrightarrow> 0 < tcpPending s \<Longrightarrow> race_check s = None"
  by (simp add: race_check_def)

lemma race_check_fallback:
  "tcpPending s = 0 \<Longrightarrow> fallback s = Some r \<Longrightarrow> race_check s = Some (tcpWin r)"
  by (simp add: race_check_def)

lemma race_check_handover:
  "\<not> tcpLive s \<Longrightarrow> fallback s = None \<Longrightarrow> bestICMP s = None \<Longrightarrow> icmpPending s > 0 \<Longrightarrow>
   race_check s = None"
  by (simp add: race_check_def)

text \<open>What a returned outcome rests on: a held or a reported success, or nobody.\<close>

definition earned :: "race_state \<Rightarrow> race_event list \<Rightarrow> outcome \<Rightarrow> bool" where
  "earned s evs out \<longleftrightarrow>
     out = nobody \<or>
     (\<exists>r. (fallback s = Some r \<or> TcpMsg r \<in> set evs \<and> t_ok r) \<and> out = tcpWin r) \<or>
     (\<exists>p. (bestICMP s = Some p \<or> IcmpMsg p \<in> set evs \<and> i_ok p) \<and> out = icmpWin p)"

lemma race_check_earned: "race_check s = Some out \<Longrightarrow> earned s evs out"
  by (auto simp: race_check_def earned_def split: if_splits)

lemma race_step_earned: "race_step s e = Inl out \<Longrightarrow> earned s (e # es) out"
  by (cases e) (auto simp: earned_def Let_def split: option.splits if_splits)

lemma earned_step: "race_step s e = Inr s' \<Longrightarrow> earned s' es out \<Longrightarrow> earned s (e # es) out"
  by (cases e)
     (auto simp: earned_def hold_def better_def Let_def split: option.splits if_splits)

lemma race_loop_earned: "race_loop s evs = Some out \<Longrightarrow> earned s evs out"
proof (induction s evs rule: race_loop.induct)
  case (1 s)
  then show ?case by (simp add: race_check_earned)
next
  case (2 s e es)
  show ?case
  proof (cases "race_check s")
    case (Some o1)
    with "2.prems" show ?thesis by (simp add: race_check_earned)
  next
    case None
    with 2 show ?thesis
      by (cases "race_step s e") (auto intro: race_step_earned earned_step)
  qed
qed

lemma race_loop_returns_done: "CtxDone \<in> set evs \<Longrightarrow> race_loop s evs \<noteq> None"
proof (induction s evs rule: race_loop.induct)
  case (1 s)
  then show ?case by simp
next
  case (2 s e es)
  then show ?case
    by (cases "race_check s"; cases e) (auto split: sum.splits option.splits)
qed

lemma race_loop_returns_drained:
  "tcpPending s = int (length (tcp_reports evs)) \<Longrightarrow>
   icmpPending s = int (length (icmp_reports evs)) \<Longrightarrow> race_loop s evs \<noteq> None"
proof (induction s evs rule: race_loop.induct)
  case (1 s)
  then show ?case by (simp add: race_check_def del: not_None_eq)
next
  case (2 s e es)
  show ?case
  proof (cases "race_check s")
    case None
    with 2 show ?thesis
      by (cases e) (auto simp: Let_def simp del: not_None_eq split: option.splits if_splits)
  qed simp
qed

text \<open>Until the handover nothing ends the race while dials are outstanding.\<close>

lemma race_loop_first_port:
  assumes "tcpLive s" "list_all quiet pre" "int (length (tcp_reports pre)) < tcpPending s"
    "t_ok r" "t_portIdx r = 0"
  shows "race_loop s (pre @ TcpMsg r # post) = Some (tcpWin r)"
  using assms
proof (induction pre arbitrary: s)
  case Nil
  then show ?case by (simp add: race_check_live)
next
  case (Cons e pre)
  then have "race_check s = None" by (simp add: race_check_live)
  with Cons show ?case by (cases e) (auto simp: Let_def)
qed

lemma held_Nil [simp]: "held f [] = f"
  and held_Tcp [simp]: "held f (TcpMsg r # es) = held (if t_ok r then hold f r else f) es"
  and held_Icmp [simp]: "held f (IcmpMsg p # es) = held f es"
  by (simp_all add: held_def)

lemma held_no_reports: "tcp_reports es = [] \<Longrightarrow> held f es = f"
  by (simp add: held_def)

lemma race_loop_held:
  assumes "tcpLive s" "list_all quiet pre" "int (length (tcp_reports pre)) \<le> tcpPending s"
    "held (fallback s) pre = Some r"
  shows "race_loop s (pre @ DeadlineC # post) = Some (tcpWin r)"
  using assms
proof (induction pre arbitrary: s)
  case Nil
  show ?case
  proof (cases "tcpPending s = 0")
    case True
    with Nil show ?thesis by (simp add: race_check_fallback)
  next
    case False
    with Nil show ?thesis by (simp add: race_check_live)
  qed
next
  case (Cons e pre)
  show ?case
  proof (cases "tcpPending s = 0")
    case True
    with Cons.prems have "tcp_reports (e # pre) = []" by simp
    with Cons.prems(4) have "fallback s = Some r" by (simp add: held_no_reports)
    with True show ?thesis by (simp add: race_check_fallback)
  next
    case False
    with Cons.prems have chk: "race_check s = None" by (simp add: race_check_live)
    show ?thesis
    proof (cases e)
      case (TcpMsg x)
      let ?s2 = "s\<lparr>tcpPending := tcpPending s - 1,
        fallback := (if t_ok x then hold (fallback s) x else fallback s)\<rparr>"
      have "tcp_reports pre \<noteq> [] \<or> fallback ?s2 \<noteq> None"
        using Cons.prems(4) TcpMsg by (auto simp: held_no_reports)
      then have "race_step s e = Inr ?s2"
        using TcpMsg Cons.prems by (auto simp: Let_def)
      moreover have "race_loop ?s2 (pre @ DeadlineC # post) = Some (tcpWin r)"
        using TcpMsg Cons.prems by (intro Cons.IH) auto
      ultimately show ?thesis using chk by simp
    next
      case (IcmpMsg p)
      then have "race_loop (s\<lparr>icmpPending := icmpPending s - 1, bestICMP := better (bestICMP s) p\<rparr>)
          (pre @ DeadlineC # post) = Some (tcpWin r)"
        using Cons.prems by (intro Cons.IH) auto
      with chk IcmpMsg show ?thesis by simp
    qed (use Cons.prems in auto)
  qed
qed

lemma hold_simps:
  "hold None r = Some r" "hold (Some x) r = (if t_rtt r < t_rtt x then Some r else Some x)"
  by (simp_all add: hold_def)

lemma foldl_hold:
  "foldl hold (Some f) rs = Some r \<Longrightarrow>
   (r = f \<or> r \<in> set rs) \<and> t_rtt r \<le> t_rtt f \<and> (\<forall>x \<in> set rs. t_rtt r \<le> t_rtt x)"
proof (induction rs arbitrary: f)
  case Nil
  then show ?case by simp
next
  case (Cons y ys)
  then show ?case by (cases "t_rtt y < t_rtt f") (auto simp: hold_simps dest!: Cons.IH)
qed

lemma foldl_hold_None:
  "foldl hold None rs = Some r \<Longrightarrow> r \<in> set rs \<and> (\<forall>x \<in> set rs. t_rtt r \<le> t_rtt x)"
  by (cases rs) (auto simp: hold_simps dest!: foldl_hold)

lemma held_minimal:
  assumes "held None evs = Some r"
  shows "TcpMsg r \<in> set evs" "t_ok r"
    "\<forall>x. TcpMsg x \<in> set evs \<longrightarrow> t_ok x \<longrightarrow> t_rtt r \<le> t_rtt x"
  using foldl_hold_None [of "filter t_ok (tcp_reports evs)" r] assms
  by (auto simp: held_def tcp_reports_mem)

lemma held_exists:
  assumes "TcpMsg x \<in> set evs" "t_ok x"
  obtains r where "held None evs = Some r"
proof -
  have "foldl hold f rs \<noteq> None" if "rs \<noteq> []" for f and rs :: "tcpResult list"
    using that by (induction rs rule: rev_induct) (auto simp: hold_def split: option.splits)
  moreover have "filter t_ok (tcp_reports evs) \<noteq> []"
    using assms by (auto simp: tcp_reports_mem filter_empty_conv)
  ultimately have "held None evs \<noteq> None" unfolding held_def by blast
  with that show ?thesis by auto
qed

text \<open>Events that leave TCP without a success: failed dials and ICMP reports.\<close>

fun dull :: "race_event \<Rightarrow> bool" where
  "dull (TcpMsg r) = (\<not> t_ok r)"
| "dull (IcmpMsg p) = True"
| "dull _ = False"

text \<open>Events that bring no ICMP success and do not end the budget.\<close>

fun silent :: "race_event \<Rightarrow> bool" where
  "silent (IcmpMsg p) = (\<not> i_ok p)"
| "silent CtxDone = False"
| "silent _ = True"

lemma fastest_Nil [simp]: "fastest b [] = b"
  and fastest_Tcp [simp]: "fastest b (TcpMsg r # es) = fastest b es"
  and fastest_Icmp [simp]: "fastest b (IcmpMsg p # es) = fastest (better b p) es"
  by (simp_all add: fastest_def)

lemma race_loop_skip:
  assumes "tcpLive s" "fallback s = None" "list_all dull pre"
    "int (length (tcp_reports pre)) < tcpPending s"
  shows "race_loop s (pre @ post) =
     race_loop (s\<lparr>tcpPending := tcpPending s - int (length (tcp_reports pre)),
                  icmpPending := icmpPending s - int (length (icmp_reports pre)),
                  bestICMP := fastest (bestICMP s) pre\<rparr>) post"
  using assms
proof (induction pre arbitrary: s)
  case Nil
  then show ?case by simp
next
  case (Cons e pre)
  then have chk: "race_check s = None" by (simp add: race_check_live)
  show ?case
  proof (cases e)
    case (TcpMsg r)
    let ?s = "s\<lparr>tcpPending := tcpPending s - 1\<rparr>"
    have "race_step s e = Inr ?s" using TcpMsg Cons.prems by (auto simp: Let_def)
    moreover note Cons.IH [of ?s]
    ultimately show ?thesis using chk TcpMsg Cons.prems by (simp add: algebra_simps)
  next
    case (IcmpMsg p)
    with chk Cons.prems
      Cons.IH [of "s\<lparr>icmpPending := icmpPending s - 1, bestICMP := better (bestICMP s) p\<rparr>"]
    show ?thesis by (simp add: algebra_simps)
  qed (use Cons.prems in auto)
qed

lemma race_loop_first_icmp:
  assumes "\<not> tcpLive s" "fallback s = None" "bestICMP s = None" "list_all silent mid"
    "int (length (icmp_reports mid)) < icmpPending s" "i_ok p"
  shows "race_loop s (mid @ IcmpMsg p # post) = Some (icmpWin p)"
  using assms
proof (induction mid arbitrary: s)
  case Nil
  then have "race_check s = None" by (simp add: race_check_handover)
  moreover have "race_loop (s\<lparr>icmpPending := icmpPending s - 1, bestICMP := Some p\<rparr>) post =
      Some (icmpWin p)"
    using Nil by (cases post) (simp_all add: race_check_def)
  ultimately show ?case using Nil by (simp add: better_def)
next
  case (Cons e mid)
  then have chk: "race_check s = None" by (simp add: race_check_handover)
  show ?case
    by (cases e; use Cons chk in \<open>force simp: Let_def better_def\<close>)
qed


lemma fastest_None: "fastest None evs = None \<longleftrightarrow> (\<forall>p. IcmpMsg p \<in> set evs \<longrightarrow> \<not> i_ok p)"
proof -
  have "foldl better b ps = None \<longleftrightarrow> b = None \<and> (\<forall>p \<in> set ps. \<not> i_ok p)" for b ps
    by (induction ps arbitrary: b) (auto simp: better_def split: option.splits)
  then show ?thesis by (auto simp: fastest_def icmp_reports_mem)
qed



section \<open>Properties\<close>

text \<open>
  Racing is sound in every interleaving: whatever the order of probe reports and
  timers, an address that \<open>pickWinner\<close> returns is one of the candidates, and it won by a
  probe that succeeded: a dial on one of the configured ports, or an ICMP echo when ICMP
  probing is on, with that probe's round trip.
\<close>

theorem pickWinner_sound:
  assumes "possible_events ips ports ping evs"
    and "pickWinner ips ports ping evs = Some (w, via, rtt)" and "w \<noteq> nil_ip"
  shows "w \<in> set ips \<and>
    ((\<exists>i < length ports. via = ''tcp/'' @ itoa (ports ! i) \<and>
        TcpMsg \<lparr>t_ip = w, t_portIdx = i, t_port = ports ! i, t_rtt = rtt, t_ok = True\<rparr> \<in> set evs) \<or>
     (ping \<and> via = ''icmp'' \<and> IcmpMsg \<lparr>i_ip = w, i_rtt = rtt, i_ok = True\<rparr> \<in> set evs))"
proof -
  from assms(2) have "earned (race_init (length ips) (length ports) ping) evs (w, via, rtt)"
    unfolding pickWinner_def by (rule race_loop_earned)
  with assms(3) consider r where "TcpMsg r \<in> set evs" "t_ok r" "(w, via, rtt) = tcpWin r"
    | p where "IcmpMsg p \<in> set evs" "i_ok p" "(w, via, rtt) = icmpWin p"
    by (auto simp: earned_def race_init_def nobody_def)
  then show ?thesis
  proof cases
    case 1
    with possible_tcp [OF assms(1) 1(1)] show ?thesis
      by (cases r) (auto simp: tcpWin_def intro!: exI [of _ "t_portIdx r"])
  next
    case 2
    with possible_icmp [OF assms(1) 2(1)] show ?thesis by (cases p) (auto simp: icmpWin_def)
  qed
qed

text \<open>
  C16: The race always ends: by the moment its budget ends it has returned, and it returns
  without waiting for any timer once every probe it launched has reported.
\<close>

theorem pickWinner_terminates:
  "(CtxDone \<in> set evs \<longrightarrow> pickWinner ips ports ping evs \<noteq> None) \<and>
   (length (tcp_reports evs) = length ips * length ports \<and>
    length (icmp_reports evs) = (if ping then length ips else 0) \<longrightarrow>
    pickWinner ips ports ping evs \<noteq> None)"
  unfolding pickWinner_def
  by (intro conjI impI race_loop_returns_done race_loop_returns_drained)
     (simp_all add: race_init_def)

text \<open>
  C13: A success on the first port inside the TCP window wins at once: if no timer has fired
  and no earlier first-port dial has succeeded, the race returns this one, whatever
  later-port or ICMP successes came before it and whatever comes after.
\<close>

theorem pickWinner_first_port:
  assumes "possible_events ips ports ping (pre @ TcpMsg r # post)"
    and "list_all quiet pre" and "t_ok r" and "t_portIdx r = 0"
  shows "pickWinner ips ports ping (pre @ TcpMsg r # post) = Some (tcpWin r)"
  unfolding pickWinner_def
proof (rule race_loop_first_port)
  have "length (tcp_reports (pre @ TcpMsg r # post)) \<le> length ips * length ports"
    by (rule possible_counts [OF assms(1)])
  moreover have "tcp_reports (pre @ TcpMsg r # post) = tcp_reports pre @ r # tcp_reports post"
    by (simp add: tcp_reports_def List.map_filter_def)
  ultimately have "length (tcp_reports pre) < length ips * length ports" by simp
  then have "int (length (tcp_reports pre)) < int (length ips * length ports)" by presburger
  then show "int (length (tcp_reports pre)) < tcpPending (race_init (length ips) (length ports) ping)"
    by (simp add: race_init_def)
qed (use assms in \<open>simp_all add: race_init_def\<close>)

text \<open>
  C14: A later-port success inside the TCP window is held: when the TCP deadline fires with
  no first-port success, the fastest of the later-port successes wins, even over ICMP
  replies, and also when the race returned earlier because every dial had reported.
\<close>

theorem pickWinner_later_port:
  assumes "possible_events ips ports ping (pre @ DeadlineC # post)"
    and "list_all quiet pre" and "TcpMsg x \<in> set pre" and "t_ok x"
  shows "\<exists>r. pickWinner ips ports ping (pre @ DeadlineC # post) = Some (tcpWin r) \<and>
     TcpMsg r \<in> set pre \<and> t_ok r \<and> (\<forall>y. TcpMsg y \<in> set pre \<longrightarrow> t_ok y \<longrightarrow> t_rtt r \<le> t_rtt y)"
proof -
  from assms(3,4) obtain r where r: "held None pre = Some r" by (rule held_exists)
  have "tcp_reports (pre @ DeadlineC # post) = tcp_reports pre @ tcp_reports post"
    by (simp add: tcp_reports_def List.map_filter_def)
  with possible_counts(1) [OF assms(1)]
  have "int (length (tcp_reports pre)) \<le> int (length ips * length ports)"
    by (simp only: of_nat_le_iff) simp
  with r assms(2) have "pickWinner ips ports ping (pre @ DeadlineC # post) = Some (tcpWin r)"
    unfolding pickWinner_def by (intro race_loop_held) (simp_all add: race_init_def)
  with held_minimal [OF r] show ?thesis by blast
qed


text \<open>
  Early handover: as soon as the last outstanding dial has failed and no dial has
  succeeded, the next successful echo wins without waiting for the TCP deadline.
\<close>

theorem pickWinner_dead_tcp:
  assumes "list_all dull pre" and "\<not> t_ok r"
    and "Suc (length (tcp_reports pre)) = length ips * length ports"
    and "ping" and "length (icmp_reports (pre @ mid)) < length ips"
    and "list_all silent pre" and "list_all silent mid" and "i_ok p"
  shows "pickWinner ips ports ping (pre @ TcpMsg r # mid @ IcmpMsg p # post) = Some (icmpWin p)"
proof -
  let ?s0 = "race_init (length ips) (length ports) ping"
  let ?s1 = "?s0\<lparr>tcpPending := 1, icmpPending := int (length ips) - int (length (icmp_reports pre))\<rparr>"
  let ?s2 = "?s1\<lparr>tcpPending := 0, tcpLive := False\<rparr>"
  have icmp: "icmp_reports (pre @ mid) = icmp_reports pre @ icmp_reports mid"
    by (simp add: icmp_reports_def List.map_filter_def)
  have none: "fastest None pre = None"
    using assms(6) by (force simp: fastest_None list_all_iff)
  have n: "int (length ips * length ports) = 1 + int (length (tcp_reports pre))"
    using assms(3) [symmetric] by simp
  have "pickWinner ips ports ping (pre @ TcpMsg r # mid @ IcmpMsg p # post) =
      race_loop ?s1 (TcpMsg r # mid @ IcmpMsg p # post)"
    unfolding pickWinner_def using assms(1,4) n none
    by (subst race_loop_skip) (auto simp: race_init_def)
  also have "\<dots> = race_loop ?s2 (mid @ IcmpMsg p # post)"
    using assms(2,4,5) icmp
    by (simp add: race_check_live race_init_def Let_def)
  also have "\<dots> = Some (icmpWin p)"
    using assms icmp by (intro race_loop_first_icmp) (simp_all add: race_init_def)
  finally show ?thesis .
qed

text \<open>
  The timers are well placed: the normalised TCP deadline is never negative and never
  exceeds the normalised budget, and with ICMP on it lies strictly inside it, so there is
  always time left to hand over.
\<close>

theorem effective_deadline_bounds:
  "0 < effective_timeout timeout \<and>
   0 \<le> effective_deadline timeout tcpDeadline ping \<and>
   effective_deadline timeout tcpDeadline ping \<le> effective_timeout timeout \<and>
   (ping \<longrightarrow> effective_deadline timeout tcpDeadline ping < effective_timeout timeout)"
  by (auto simp: effective_deadline_def effective_timeout_def Let_def second_def
      signed_divide_int_def)

text \<open>
  Narrowing never breaks an answer: when the preferred address occurs in the answer,
  the narrowed message keeps the order of the records and every record that is not an
  address of the queried type, and carries exactly one distinct address of that type, the
  preferred one.
\<close>

theorem narrow_correct:
  assumes "ipIn (answerIPs msg qtype) w"
  shows "subseq (m_answer (narrow msg qtype w)) (m_answer msg) \<and>
    filter (\<lambda>r. recordIP r qtype = None) (m_answer (narrow msg qtype w)) =
      filter (\<lambda>r. recordIP r qtype = None) (m_answer msg) \<and>
    (\<exists>q. answerIPs (narrow msg qtype w) qtype = [q] \<and> ip_equal q w) \<and>
    (narrow msg qtype w)\<lparr>m_answer := m_answer msg\<rparr> = msg"
proof -
  from assms obtain p where "p \<in> set (answerIPs msg qtype)" "ip_equal p w"
    by (auto simp: ipIn_iff)
  then have "\<exists>q. answerIPs (narrow msg qtype w) qtype = [q] \<and> ip_equal q w"
    by (rule answerIPs_narrow)
  moreover have "filter (\<lambda>r. recordIP r qtype = None) (m_answer (narrow msg qtype w)) =
      filter (\<lambda>r. recordIP r qtype = None) (m_answer msg)"
    by (auto simp: narrow_def intro!: filter_cong)
  moreover have "(narrow msg qtype w)\<lparr>m_answer := m_answer msg\<rparr> = msg"
    by (simp add: narrow_def)
  ultimately show ?thesis using narrow_answer_subseq by blast
qed

text \<open>
  \<open>answerIPs\<close> lists every address of the queried type in the answer once: the texts
  of its result are distinct and are exactly the texts of the matching records.
\<close>

theorem answerIPs_distinct_complete:
  "distinct (map ip_string (answerIPs msg qtype)) \<and>
   ip_string ` set (answerIPs msg qtype) =
     {ip_string p | p. \<exists>r \<in> set (m_answer msg). recordIP r qtype = Some p}"
  unfolding answerIPs_def by (simp add: answerIPs_loop_distinct answerIPs_loop_set)

section \<open>Witnesses\<close>

abbreviation ip1 :: ip where "ip1 \<equiv> [192, 0, 2, 1]"
abbreviation ip2 :: ip where "ip2 \<equiv> [192, 0, 2, 2]"

abbreviation dialed :: "ip \<Rightarrow> nat \<Rightarrow> duration \<Rightarrow> bool \<Rightarrow> tcpResult" where
  "dialed p i rtt ok \<equiv>
     \<lparr>t_ip = p, t_portIdx = i, t_port = [443, 80] ! i, t_rtt = rtt, t_ok = ok\<rparr>"

abbreviation pinged :: "ip \<Rightarrow> duration \<Rightarrow> bool \<Rightarrow> icmpResult" where
  "pinged p rtt ok \<equiv> \<lparr>i_ip = p, i_rtt = rtt, i_ok = ok\<rparr>"

text \<open>The later-port scenario of the test suite: port 80 and both echoes answer, port 443 is slow.\<close>

definition slow_443 :: "race_event list" where
  "slow_443 = [IcmpMsg (pinged ip1 10 True), TcpMsg (dialed ip1 1 20 True),
               IcmpMsg (pinged ip2 10 True), TcpMsg (dialed ip2 1 35 True)]"

definition two_ip_msg :: dns_msg where
  "two_ip_msg =
     (let h = \<lparr>rr_name = ''example.com.'', rr_type = 1, rr_class = 1, rr_ttl = 300\<rparr> in
      \<lparr>m_id = 7, m_response = True, m_opcode = 0, m_authoritative = False, m_truncated = False,
       m_recursion_desired = True, m_recursion_available = True, m_authenticated_data = False,
       m_checking_disabled = False, m_rcode = 0,
       m_question = [\<lparr>q_name = ''example.com.'', q_type = 1, q_class = 1\<rparr>],
       m_answer = [RR_Other h ''cname'', RR_A h ip1, RR_A h ip2], m_ns = [], m_extra = []\<rparr>)"

theorem pickWinner_sound_witness:
  "ip2 \<in> set [ip1, ip2] \<and>
    ((\<exists>i < length [443, 80 :: int]. ''tcp/443'' = ''tcp/'' @ itoa ([443, 80] ! i) \<and>
        TcpMsg \<lparr>t_ip = ip2, t_portIdx = i, t_port = [443, 80] ! i, t_rtt = 15, t_ok = True\<rparr>
          \<in> set [TcpMsg (dialed ip2 0 15 True)]) \<or>
     (True \<and> ''tcp/443'' = ''icmp'' \<and>
      IcmpMsg \<lparr>i_ip = ip2, i_rtt = 15, i_ok = True\<rparr> \<in> set [TcpMsg (dialed ip2 0 15 True)]))"
proof (rule pickWinner_sound)
  show "possible_events [ip1, ip2] [443, 80] True [TcpMsg (dialed ip2 0 15 True)]"
    by (simp add: possible_events_def launched_tcp_def)
  have "itoa 443 = ''443''" by code_simp
  then show "pickWinner [ip1, ip2] [443, 80] True [TcpMsg (dialed ip2 0 15 True)] =
      Some (ip2, ''tcp/443'', 15)"
    by (simp add: pickWinner_def race_init_def race_check_def tcpWin_def)
qed simp

theorem pickWinner_terminates_witness:
  "pickWinner [ip1, ip2] [443, 80] True [CtxDone] \<noteq> None"
  using pickWinner_terminates [of "[CtxDone]" "[ip1, ip2]" "[443, 80]" True] by simp

theorem pickWinner_first_port_witness:
  "pickWinner [ip1, ip2] [443, 80] True (slow_443 @ TcpMsg (dialed ip2 0 90 True) # []) =
     Some (tcpWin (dialed ip2 0 90 True))"
  by (rule pickWinner_first_port)
     (simp_all add: slow_443_def possible_events_def launched_tcp_def)

theorem pickWinner_later_port_witness:
  "\<exists>r. pickWinner [ip1, ip2] [443, 80] True (slow_443 @ DeadlineC # []) = Some (tcpWin r) \<and>
     TcpMsg r \<in> set slow_443 \<and> t_ok r \<and>
     (\<forall>y. TcpMsg y \<in> set slow_443 \<longrightarrow> t_ok y \<longrightarrow> t_rtt r \<le> t_rtt y)"
  by (rule pickWinner_later_port [where x = "dialed ip1 1 20 True"])
     (simp_all add: slow_443_def possible_events_def launched_tcp_def)


theorem pickWinner_dead_tcp_witness:
  "pickWinner [ip1] [443, 80] True
     ([TcpMsg (dialed ip1 1 20 False)] @ TcpMsg (dialed ip1 0 30 False) # [] @
      IcmpMsg (pinged ip1 50 True) # []) = Some (icmpWin (pinged ip1 50 True))"
  by (rule pickWinner_dead_tcp) simp_all

theorem narrow_correct_witness:
  "subseq (m_answer (narrow two_ip_msg TypeA ip2)) (m_answer two_ip_msg) \<and>
    filter (\<lambda>r. recordIP r TypeA = None) (m_answer (narrow two_ip_msg TypeA ip2)) =
      filter (\<lambda>r. recordIP r TypeA = None) (m_answer two_ip_msg) \<and>
    (\<exists>q. answerIPs (narrow two_ip_msg TypeA ip2) TypeA = [q] \<and> ip_equal q ip2) \<and>
    (narrow two_ip_msg TypeA ip2)\<lparr>m_answer := m_answer two_ip_msg\<rparr> = two_ip_msg"
proof (rule narrow_correct)
  have "answerIPs two_ip_msg TypeA = [ip1, ip2]"
    by code_simp
  then show "ipIn (answerIPs two_ip_msg TypeA) ip2" by simp
qed

theorem effective_deadline_bounds_witness:
  "effective_deadline (900 * millisecond) (2 * second) True < effective_timeout (900 * millisecond)"
  using effective_deadline_bounds [of "900 * millisecond" "2 * second" True] by simp

text \<open>
  At the end of the budget ICMP is preferred to a held later-port success, unlike at the
  TCP deadline: when the runtime delivers the budget's end first, the held dial loses.
\<close>

lemma budget_end_prefers_icmp:
  "possible_events [ip1, ip2] [443, 80] True (slow_443 @ [CtxDone]) \<and>
   pickWinner [ip1, ip2] [443, 80] True (slow_443 @ [CtxDone]) = Some (icmpWin (pinged ip1 10 True)) \<and>
   pickWinner [ip1, ip2] [443, 80] True (slow_443 @ [DeadlineC]) = Some (tcpWin (dialed ip1 1 20 True))"
  by (simp add: slow_443_def possible_events_def launched_tcp_def pickWinner_def race_init_def
      race_check_def better_def hold_def)

end
