(* ===== verification/RedisServer.thy ===== *)
theory RedisServer
  imports World "HOL-Library.AList" "HOL-Library.Multiset"
begin

text \<open>
  The documented behaviour of the Redis commands whose effect later commands observe.  The
  server is not part of the repository: the model takes it as the field \<open>redis\<close> of the
  environment, and the locales below name what a property may rely on.  \<open>hash_at st t k\<close> and
  \<open>str_at st t k\<close> are what the hash and the string at key \<open>k\<close> show at time \<open>t\<close> if no further
  command runs, so expiry is part of them; a hash that does not exist is empty.

  \<open>mem_redis\<close> is an in-memory server for these commands.  It shows that the laws are
  consistent and gives the witnesses a server to run on; no definition of the model uses it.
\<close>

section \<open>Laws\<close>

text \<open>The commands that can change the string at a key, or when it expires.\<close>

fun touches :: "redis_cmd \<Rightarrow> string \<Rightarrow> bool" where
  "touches (SET k v ttl) k' = (k = k')"
| "touches (EXPIRE k ttl) k' = (k = k')"
| "touches (ZUNIONSTORE k srcs) k' = (k = k')"
| "touches _ k' = False"

locale redis_strings =
  fixes E :: "'r env" and str_at :: "'r \<Rightarrow> timestamp \<Rightarrow> string \<Rightarrow> bytes option"
  assumes get_reply:
      "fst (redis E t (GET k) st) =
         (case str_at st t k of None \<Rightarrow> RNil | Some v \<Rightarrow> RBytes v)"
    and set_value:
      "0 < ttl \<Longrightarrow> t \<le> t' \<Longrightarrow>
       str_at (snd (redis E t (SET k v ttl) st)) t' k = (if t' < t + ttl then Some v else None)"
    and strings_frame:
      "t \<le> t' \<Longrightarrow> \<not> touches c k' \<Longrightarrow> str_at (snd (redis E t c st)) t' k' = str_at st t' k'"

locale redis_hash =
  fixes E :: "'r env" and hash_at :: "'r \<Rightarrow> timestamp \<Rightarrow> string \<Rightarrow> (string \<rightharpoonup> string)"
  assumes hgetall_reply:
      "\<exists>kvs. fst (redis E t (HGETALL k) st) = RHash kvs \<and> map_of kvs = hash_at st t k"
    and hgetall_frame:
      "t \<le> t' \<Longrightarrow> hash_at (snd (redis E t (HGETALL k) st)) t' k' = hash_at st t' k'"
    and hset_fresh:
      "hash_at st t k = Map.empty \<Longrightarrow> t \<le> t' \<Longrightarrow> distinct (map fst fs) \<Longrightarrow>
       hash_at (snd (redis E t (HSET k fs) st)) t' k = map_of fs"
    and hset_live:
      "hash_at st t k \<noteq> Map.empty \<Longrightarrow> t \<le> t' \<Longrightarrow> distinct (map fst fs) \<Longrightarrow>
       hash_at (snd (redis E t (HSET k fs) st)) t' k =
         (if hash_at st t' k = Map.empty then Map.empty else hash_at st t' k ++ map_of fs)"
    and expire_live:
      "hash_at st t k \<noteq> Map.empty \<Longrightarrow> t \<le> t' \<Longrightarrow>
       hash_at (snd (redis E t (EXPIRE k ttl) st)) t' k =
         (if t' < t + ttl then hash_at st t k else Map.empty)"
    and hincrby_live:
      "hash_at st t k f = Some v \<Longrightarrow> parse_int v = Some i \<Longrightarrow> in_int64 (i + n) \<Longrightarrow> t \<le> t' \<Longrightarrow>
       hash_at st t' k \<noteq> Map.empty \<Longrightarrow>
       hash_at (snd (redis E t (HINCRBY k f n) st)) t' k = (hash_at st t' k)(f \<mapsto> itoa (i + n))"
    and hincrby_absent:
      "hash_at st t k = Map.empty \<Longrightarrow> t \<le> t' \<Longrightarrow> in_int64 n \<Longrightarrow>
       hash_at (snd (redis E t (HINCRBY k f n) st)) t' k = [f \<mapsto> itoa n]"

text \<open>
  Sorted sets, as a finite map from members to scores; the program gives none of them a
  lifetime.  \<open>ZREVRANGEBYSCORE k lo n\<close> asks for the members with a score of at least \<open>lo\<close>,
  best first, at most \<open>n\<close> of them; \<open>ZREMRANGEBYRANK k 0 (- n - 1)\<close> keeps the \<open>n\<close> best.
\<close>

locale redis_zset =
  fixes E :: "'r env" and zset_at :: "'r \<Rightarrow> string \<Rightarrow> (string \<rightharpoonup> real)"
  assumes zset_finite: "finite (dom (zset_at st k))"
    and zincrby_value:
      "zset_at (snd (redis E t (ZINCRBY k d m) st)) k =
         (zset_at st k)(m \<mapsto> (case zset_at st k m of None \<Rightarrow> d | Some x \<Rightarrow> x + d))"
    and zrevrange_reply:
      "0 < n \<Longrightarrow>
       \<exists>zs. fst (redis E t (ZREVRANGEBYSCORE k lo n) st) = RScored zs \<and>
         distinct (map fst zs) \<and> int (length zs) \<le> n \<and> sorted_wrt (\<ge>) (map snd zs) \<and>
         (\<forall>(m, x) \<in> set zs. zset_at st k m = Some x \<and> lo \<le> x) \<and>
         (\<forall>m x. zset_at st k m = Some x \<longrightarrow> lo \<le> x \<longrightarrow>
            (m, x) \<in> set zs \<or> int (length zs) = n \<and> (\<forall>(m', y) \<in> set zs. x \<le> y))"
    and zunionstore_self:
      "zset_at (snd (redis E t (ZUNIONSTORE k [(k, w)]) st)) k = (\<lambda>m. map_option (\<lambda>x. x * w) (zset_at st k m))"
    and zremrangebyscore_value:
      "zset_at (snd (redis E t (ZREMRANGEBYSCORE_NEGINF k hi) st)) k =
         (\<lambda>m. case zset_at st k m of None \<Rightarrow> None | Some x \<Rightarrow> if x \<le> hi then None else Some x)"
    and zremrangebyrank_value:
      "\<exists>keep. zset_at (snd (redis E t (ZREMRANGEBYRANK k 0 (- int c - 1)) st)) k = zset_at st k |` keep \<and>
         keep \<subseteq> dom (zset_at st k) \<and> card keep = min c (card (dom (zset_at st k))) \<and>
         (\<forall>m x m' y. zset_at st k m = Some x \<longrightarrow> m \<notin> keep \<longrightarrow> zset_at st k m' = Some y \<longrightarrow> m' \<in> keep \<longrightarrow> x \<le> y)"

section \<open>An in-memory server\<close>

record mem =
  strs :: "string \<Rightarrow> (bytes \<times> timestamp) option"
  hashes :: "string \<Rightarrow> ((string \<times> string) list \<times> timestamp option) option"
  zsets :: "string \<Rightarrow> (string \<times> real) list"

definition mem_empty :: mem where
  "mem_empty = \<lparr>strs = (\<lambda>_. None), hashes = (\<lambda>_. None), zsets = (\<lambda>_. [])\<rparr>"

definition mem_str :: "mem \<Rightarrow> timestamp \<Rightarrow> string \<Rightarrow> bytes option" where
  "mem_str m t k =
     (case strs m k of None \<Rightarrow> None | Some (v, x) \<Rightarrow> if t < x then Some v else None)"

definition mem_alist :: "mem \<Rightarrow> timestamp \<Rightarrow> string \<Rightarrow> (string \<times> string) list" where
  "mem_alist m t k =
     (case hashes m k of
        None \<Rightarrow> []
      | Some (al, None) \<Rightarrow> al
      | Some (al, Some x) \<Rightarrow> if t < x then al else [])"

definition mem_expiry :: "mem \<Rightarrow> timestamp \<Rightarrow> string \<Rightarrow> timestamp option" where
  "mem_expiry m t k =
     (case hashes m k of
        None \<Rightarrow> None
      | Some (al, None) \<Rightarrow> None
      | Some (al, Some x) \<Rightarrow> if t < x \<and> al \<noteq> [] then Some x else None)"

definition mem_hash :: "mem \<Rightarrow> timestamp \<Rightarrow> string \<Rightarrow> (string \<rightharpoonup> string)" where
  "mem_hash m t k = map_of (mem_alist m t k)"

definition hset_all :: "(string \<times> string) list \<Rightarrow> (string \<times> string) list \<Rightarrow> (string \<times> string) list"
where
  "hset_all fs al = fold (\<lambda>(f, v). AList.update f v) fs al"

definition mem_put ::
  "mem \<Rightarrow> timestamp \<Rightarrow> string \<Rightarrow> (string \<times> string) list \<Rightarrow> mem" where
  "mem_put m t k al = m\<lparr>hashes := (hashes m)(k := Some (al, mem_expiry m t k))\<rparr>"

text \<open>Sorted sets are kept as association lists; duplicates of a member are never visible.\<close>

definition mem_zset :: "mem \<Rightarrow> string \<Rightarrow> (string \<rightharpoonup> real)" where
  "mem_zset m k = map_of (zsets m k)"

definition mem_zput :: "mem \<Rightarrow> string \<Rightarrow> (string \<times> real) list \<Rightarrow> mem" where
  "mem_zput m k zs = m\<lparr>zsets := (zsets m)(k := zs)\<rparr>"

definition ranked :: "(string \<times> real) list \<Rightarrow> (string \<times> real) list" where
  "ranked zs = sort_key snd (AList.clearjunk zs)"

definition by_rank :: "int \<Rightarrow> int \<Rightarrow> 'a list \<Rightarrow> 'a list" where
  "by_rank start stop zs =
     (let n = int (length zs);
          i = max 0 (if start < 0 then n + start else start);
          j = (if stop < 0 then n + stop else stop)
      in if i \<le> j then take (nat i) zs @ drop (nat (j + 1)) zs else zs)"

fun mem_redis :: "timestamp \<Rightarrow> redis_cmd \<Rightarrow> mem \<Rightarrow> redis_reply \<times> mem" where
  "mem_redis t (GET k) m =
     ((case mem_str m t k of None \<Rightarrow> RNil | Some v \<Rightarrow> RBytes v), m)"
| "mem_redis t (SET k v ttl) m = (ROk, m\<lparr>strs := (strs m)(k := Some (v, t + ttl))\<rparr>)"
| "mem_redis t (HGETALL k) m = (RHash (mem_alist m t k), m)"
| "mem_redis t (HSET k fs) m = (ROk, mem_put m t k (hset_all fs (mem_alist m t k)))"
| "mem_redis t (HINCRBY k f n) m =
     (let al = mem_alist m t k in
      case map_of al f of
        None \<Rightarrow> (ROk, mem_put m t k (AList.update f (itoa n) al))
      | Some v \<Rightarrow>
          (case parse_int v of
             None \<Rightarrow> (RErr ''ERR hash value is not an integer'', m)
           | Some i \<Rightarrow> (ROk, mem_put m t k (AList.update f (itoa (i + n)) al))))"
| "mem_redis t (EXPIRE k ttl) m =
     (if mem_alist m t k = [] then (ROk, m)
      else (ROk, m\<lparr>hashes := (hashes m)(k := Some (mem_alist m t k, Some (t + ttl)))\<rparr>))"
| "mem_redis t (ZINCRBY k d mb) m =
     (ROk, mem_zput m k (AList.update mb (case mem_zset m k mb of None \<Rightarrow> d | Some x \<Rightarrow> x + d) (zsets m k)))"
| "mem_redis t (ZREVRANGEBYSCORE k lo n) m =
     (RScored (take (nat n) (rev (filter (\<lambda>(mb, x). lo \<le> x) (ranked (zsets m k))))), m)"
| "mem_redis t (ZUNIONSTORE k srcs) m =
     (case srcs of
        [(k', w)] \<Rightarrow> (ROk, mem_zput m k (map (\<lambda>(mb, x). (mb, x * w)) (zsets m k')))
      | _ \<Rightarrow> (RErr ''ERR not supported'', m))"
| "mem_redis t (ZREMRANGEBYSCORE_NEGINF k hi) m =
     (ROk, mem_zput m k (filter (\<lambda>(mb, x). \<not> x \<le> hi) (AList.clearjunk (zsets m k))))"
| "mem_redis t (ZREMRANGEBYRANK k start stop) m = (ROk, mem_zput m k (by_rank start stop (ranked (zsets m k))))"
| "mem_redis t _ m = (ROk, m)"

definition mem_env :: "'r env \<Rightarrow> mem env" where
  "mem_env E =
     \<lparr>Fqdn = Fqdn E, type_string = type_string E, StringToType = StringToType E,
      SetReply = SetReply E, Pack = Pack E, Unpack = Unpack E, SetQuestion = SetQuestion E,
      Exchange = Exchange E, probes = probes E, redis = mem_redis, clock = clock E\<rparr>"

section \<open>The in-memory server satisfies the laws\<close>

lemma mem_env_sel [simp]:
  "redis (mem_env E) = mem_redis" "clock (mem_env E) = clock E" "Fqdn (mem_env E) = Fqdn E"
  "type_string (mem_env E) = type_string E" "StringToType (mem_env E) = StringToType E"
  "Pack (mem_env E) = Pack E" "Unpack (mem_env E) = Unpack E" "Exchange (mem_env E) = Exchange E"
  "SetQuestion (mem_env E) = SetQuestion E" "SetReply (mem_env E) = SetReply E"
  "probes (mem_env E) = probes E"
  by (simp_all add: mem_env_def)

interpretation mem_strings: redis_strings "mem_env E" mem_str for E :: "'r env"
proof
  fix t t' :: timestamp and c st k'
  assume "\<not> touches c k'"
  then have "strs (snd (mem_redis t c st)) k' = strs st k'"
    by (cases c) (auto simp: mem_put_def mem_zput_def Let_def split: option.splits list.splits)
  then show "mem_str (snd (redis (mem_env E) t c st)) t' k' = mem_str st t' k'"
    by (simp add: mem_str_def)
qed (auto simp: mem_str_def)

lemma map_of_hset_all: "distinct (map fst fs) \<Longrightarrow> map_of (hset_all fs al) = map_of al ++ map_of fs"
proof (induction fs arbitrary: al)
  case Nil
  then show ?case by (simp add: hset_all_def)
next
  case (Cons fv fs)
  obtain f v where fv: "fv = (f, v)" by fastforce
  with Cons.prems have "f \<notin> dom (map_of fs)" by (auto simp: dom_map_of_conv_image_fst)
  with Cons fv show ?case
    by (auto simp: hset_all_def update_conv' map_add_def fun_eq_iff split: option.splits)
qed

lemma mem_alist_put:
  "t \<le> t' \<Longrightarrow> mem_alist (mem_put m t k al) t' k =
     (if mem_expiry m t k = None \<or> t' < the (mem_expiry m t k) then al else [])"
  by (auto simp: mem_alist_def mem_put_def split: option.splits)

lemma mem_alist_later:
  "t \<le> t' \<Longrightarrow> mem_alist m t k \<noteq> [] \<Longrightarrow>
   mem_alist m t' k = (if mem_expiry m t k = None \<or> t' < the (mem_expiry m t k)
                       then mem_alist m t k else [])"
  by (auto simp: mem_alist_def mem_expiry_def split: option.splits if_splits)

lemma map_of_empty_iff: "map_of al = Map.empty \<longleftrightarrow> al = []"
  by (cases al) (auto simp: fun_eq_iff)

lemma mem_expiry_fresh: "mem_alist m t k = [] \<Longrightarrow> mem_expiry m t k = None"
  by (auto simp: mem_alist_def mem_expiry_def split: option.splits if_splits)

lemma mem_put_expire:
  "mem_alist m t k \<noteq> [] \<Longrightarrow> t \<le> t' \<Longrightarrow>
   mem_alist (snd (mem_redis t (EXPIRE k ttl) m)) t' k =
     (if t' < t + ttl then mem_alist m t k else [])"
  by (simp add: mem_alist_def split: option.splits)

lemma mem_hash_put:
  "t \<le> t' \<Longrightarrow> mem_hash (mem_put m t k al) t' k =
     (if mem_expiry m t k = None \<or> t' < the (mem_expiry m t k) then map_of al else Map.empty)"
  by (simp add: mem_hash_def mem_alist_put)

lemma mem_hash_later:
  "t \<le> t' \<Longrightarrow> mem_hash m t k \<noteq> Map.empty \<Longrightarrow>
   mem_hash m t' k = (if mem_expiry m t k = None \<or> t' < the (mem_expiry m t k)
                       then mem_hash m t k else Map.empty)"
  by (simp add: mem_hash_def mem_alist_later map_of_empty_iff)

lemma mem_hincrby:
  "mem_redis t (HINCRBY k f n) m =
     (case mem_hash m t k f of
        None \<Rightarrow> (ROk, mem_put m t k (AList.update f (itoa n) (mem_alist m t k)))
      | Some v \<Rightarrow>
          (case parse_int v of
             None \<Rightarrow> (RErr ''ERR hash value is not an integer'', m)
           | Some i \<Rightarrow> (ROk, mem_put m t k (AList.update f (itoa (i + n)) (mem_alist m t k)))))"
  by (simp add: mem_hash_def Let_def)

interpretation mem_hashes: redis_hash "mem_env E" mem_hash for E :: "'r env"
proof
  fix t t' :: timestamp and k k' f v :: string and st :: mem and fs :: "(string \<times> string) list"
    and ttl :: duration and i n :: int
  show "\<exists>kvs. fst (redis (mem_env E) t (HGETALL k) st) = RHash kvs \<and> map_of kvs = mem_hash st t k"
    by (simp add: mem_hash_def)
  show "mem_hash (snd (redis (mem_env E) t (HGETALL k) st)) t' k' = mem_hash st t' k'"
    by simp
  assume t: "t \<le> t'"
  show "mem_hash (snd (redis (mem_env E) t (HSET k fs) st)) t' k = map_of fs"
    if "mem_hash st t k = Map.empty" "distinct (map fst fs)"
  proof -
    from that(1) have "mem_alist st t k = []" by (simp add: mem_hash_def map_of_empty_iff)
    with t that(2) show ?thesis by (simp add: mem_hash_put mem_expiry_fresh map_of_hset_all)
  qed
  show "mem_hash (snd (redis (mem_env E) t (HSET k fs) st)) t' k =
      (if mem_hash st t' k = Map.empty then Map.empty else mem_hash st t' k ++ map_of fs)"
    if "mem_hash st t k \<noteq> Map.empty" "distinct (map fst fs)"
    using t that
    by (simp add: mem_hash_put mem_hash_later map_of_hset_all) (simp add: mem_hash_def)
  show "mem_hash (snd (redis (mem_env E) t (EXPIRE k ttl) st)) t' k =
      (if t' < t + ttl then mem_hash st t k else Map.empty)"
    if "mem_hash st t k \<noteq> Map.empty"
    using t that mem_put_expire [of st t k t' ttl] by (auto simp: mem_hash_def map_of_empty_iff)
  show "mem_hash (snd (redis (mem_env E) t (HINCRBY k f n) st)) t' k =
      (mem_hash st t' k)(f \<mapsto> itoa (i + n))"
    if "mem_hash st t k f = Some v" "parse_int v = Some i" "mem_hash st t' k \<noteq> Map.empty"
  proof -
    from that(1) have "mem_hash st t k \<noteq> Map.empty" by auto
    with t that(3) have "mem_expiry st t k = None \<or> t' < the (mem_expiry st t k)"
      and same: "mem_hash st t' k = mem_hash st t k"
      by (auto simp: mem_hash_later split: if_splits)
    with t that(1,2) show ?thesis
      unfolding same
      by (simp add: mem_hincrby mem_hash_put update_conv' del: mem_redis.simps) (simp add: mem_hash_def)
  qed
  show "mem_hash (snd (redis (mem_env E) t (HINCRBY k f n) st)) t' k = [f \<mapsto> itoa n]"
    if "mem_hash st t k = Map.empty"
  proof -
    from that have "mem_alist st t k = []" by (simp add: mem_hash_def map_of_empty_iff)
    with t that show ?thesis by (simp add: mem_hincrby mem_hash_put mem_expiry_fresh)
  qed
qed

lemma mem_zset_zput: "mem_zset (mem_zput m k zs) k = map_of zs"
  by (simp add: mem_zset_def mem_zput_def)

lemma ranked_facts:
  "distinct (map fst (ranked zs))" "sorted (map snd (ranked zs))" "map_of (ranked zs) = map_of zs"
proof -
  have m: "mset (ranked zs) = mset (AList.clearjunk zs)" by (simp add: ranked_def)
  then have "mset (map fst (ranked zs)) = mset (map fst (AList.clearjunk zs))" by simp
  then show d: "distinct (map fst (ranked zs))"
    using distinct_clearjunk by (metis mset_eq_imp_distinct_iff)
  show "sorted (map snd (ranked zs))" by (simp add: ranked_def)
  have "map_of (ranked zs) = map_of (AList.clearjunk zs)"
    using d distinct_clearjunk [of zs] m by (intro map_of_inject_set [THEN iffD2]) (auto dest: mset_eq_setD)
  then show "map_of (ranked zs) = map_of zs" by (simp add: map_of_clearjunk)
qed

lemma ranked_mem: "(mb, x) \<in> set (ranked zs) \<longleftrightarrow> map_of zs mb = Some x"
  using ranked_facts [of zs] by (metis map_of_eq_Some_iff)

lemma take_rev_best:
  assumes "sorted (map snd ys)" "x \<in> set ys" "x \<notin> set (take n (rev ys))" "y \<in> set (take n (rev ys))"
  shows "(snd x :: real) \<le> snd y"
proof -
  have "sorted_wrt (\<ge>) (map snd (rev ys))"
    using assms(1) by (simp add: rev_map [symmetric] sorted_wrt_rev)
  then have "sorted_wrt (\<ge>) (map snd (take n (rev ys)) @ map snd (drop n (rev ys)))"
    by (metis append_take_drop_id map_append)
  moreover have "x \<in> set (drop n (rev ys))"
    using assms(2,3) by (metis Un_iff append_take_drop_id set_append set_rev)
  ultimately show ?thesis using assms(4) by (auto simp: sorted_wrt_append)
qed

lemma map_of_map_val': "map_of (map (\<lambda>(k, v). (k, f v)) al) = (\<lambda>k. map_option f (map_of al k))"
  by (induction al) auto

lemma map_of_filter_val:
  "distinct (map fst al) \<Longrightarrow>
   map_of (filter (\<lambda>(k, v). P v) al) k = (case map_of al k of None \<Rightarrow> None | Some v \<Rightarrow> if P v then Some v else None)"
proof (induction al)
  case (Cons kv al)
  obtain k' v where kv: "kv = (k', v)" by fastforce
  with Cons.prems have "map_of al k' = None" by (simp add: map_of_eq_None_iff)
  with Cons kv show ?case by auto
qed simp

lemma by_rank_top: "by_rank 0 (- int n - 1) zs = drop (length zs - n) zs"
  by (auto simp: by_rank_def Let_def nat_diff_distrib intro!: arg_cong [of _ _ "\<lambda>i. drop i zs"])

lemma map_of_drop_restrict:
  assumes "distinct (map fst zs)"
  shows "map_of (drop i zs) = map_of zs |` (fst ` set (drop i zs))"
proof
  fix k
  show "map_of (drop i zs) k = (map_of zs |` (fst ` set (drop i zs))) k"
  proof (cases "k \<in> fst ` set (drop i zs)")
    case True
    then obtain v where v: "(k, v) \<in> set (drop i zs)" by auto
    moreover have "distinct (map fst (drop i zs))" using assms by (simp add: drop_map [symmetric])
    ultimately have "map_of (drop i zs) k = Some v" by (simp add: map_of_eq_Some_iff)
    moreover have "map_of zs k = Some v"
      using v assms by (simp add: map_of_eq_Some_iff in_set_dropD)
    ultimately show ?thesis using True by simp
  next
    case False
    then show ?thesis by (simp add: map_of_eq_None_iff)
  qed
qed

lemma mem_rank_keep:
  fixes zs :: "(string \<times> real) list"
  assumes "rs = ranked zs" "keep = fst ` set (drop (length rs - n) rs)"
  shows "map_of (drop (length rs - n) rs) = map_of zs |` keep" "keep \<subseteq> dom (map_of zs)"
    "card keep = min n (card (dom (map_of zs)))"
    "map_of zs m = Some x \<Longrightarrow> m \<notin> keep \<Longrightarrow> map_of zs m' = Some y \<Longrightarrow> m' \<in> keep \<Longrightarrow> x \<le> y"
proof -
  note R = ranked_facts [of zs, folded assms(1)]
  show "map_of (drop (length rs - n) rs) = map_of zs |` keep"
    using map_of_drop_restrict [OF R(1)] R(3) assms(2) by simp
  show "keep \<subseteq> dom (map_of zs)"
    using R(3) assms(2) by (metis dom_map_of_conv_image_fst image_mono set_drop_subset)
  have "distinct (map fst (drop (length rs - n) rs))" using R(1) by (simp add: drop_map [symmetric])
  then have "card keep = length (drop (length rs - n) rs)"
    unfolding assms(2) by (metis distinct_card length_map list.set_map)
  moreover have "card (dom (map_of zs)) = length rs"
    using R(1,3) by (metis distinct_card dom_map_of_conv_image_fst length_map list.set_map)
  ultimately show "card keep = min n (card (dom (map_of zs)))" by simp
  assume m: "map_of zs m = Some x" "m \<notin> keep" and m': "map_of zs m' = Some y" "m' \<in> keep"
  have all: "set rs = set (take (length rs - n) rs) \<union> set (drop (length rs - n) rs)"
    by (metis append_take_drop_id set_append)
  have "(m, x) \<in> set (take (length rs - n) rs)"
    using m all assms by (force simp: ranked_mem [symmetric])
  moreover have "(m', y) \<in> set (drop (length rs - n) rs)"
  proof -
    from m'(2) assms(2) obtain z where z: "(m', z) \<in> set (drop (length rs - n) rs)" by auto
    then have "(m', z) \<in> set rs" by (rule in_set_dropD)
    with m'(1) assms(1) have "z = y" by (simp add: ranked_mem)
    with z show ?thesis by simp
  qed
  moreover have "sorted (map snd (take (length rs - n) rs) @ map snd (drop (length rs - n) rs))"
    using R(2) by (metis append_take_drop_id map_append)
  ultimately show "x \<le> y" by (fastforce simp: sorted_append)
qed

interpretation mem_zsets: redis_zset "mem_env E" mem_zset for E :: "'r env"
proof
  fix t :: timestamp and k m :: string and st :: mem and lo d w hi :: real and n :: int and c :: nat
  show "finite (dom (mem_zset st k))" by (simp add: mem_zset_def finite_dom_map_of)
  show "mem_zset (snd (redis (mem_env E) t (ZINCRBY k d m) st)) k =
      (mem_zset st k)(m \<mapsto> (case mem_zset st k m of None \<Rightarrow> d | Some x \<Rightarrow> x + d))"
    by (simp add: mem_zset_zput update_conv') (simp add: mem_zset_def)
  show "mem_zset (snd (redis (mem_env E) t (ZUNIONSTORE k [(k, w)]) st)) k =
      (\<lambda>m. map_option (\<lambda>x. x * w) (mem_zset st k m))"
    by (simp add: mem_zset_zput map_of_map_val') (simp add: mem_zset_def)
  show "mem_zset (snd (redis (mem_env E) t (ZREMRANGEBYSCORE_NEGINF k hi) st)) k =
      (\<lambda>m. case mem_zset st k m of None \<Rightarrow> None | Some x \<Rightarrow> if x \<le> hi then None else Some x)"
    by (rule ext) (simp add: mem_zset_def mem_zput_def map_of_filter_val distinct_clearjunk
        map_of_clearjunk split: option.split)
  show "\<exists>keep. mem_zset (snd (redis (mem_env E) t (ZREMRANGEBYRANK k 0 (- int c - 1)) st)) k = mem_zset st k |` keep \<and>
      keep \<subseteq> dom (mem_zset st k) \<and> card keep = min c (card (dom (mem_zset st k))) \<and>
      (\<forall>m x m' y. mem_zset st k m = Some x \<longrightarrow> m \<notin> keep \<longrightarrow> mem_zset st k m' = Some y \<longrightarrow> m' \<in> keep \<longrightarrow> x \<le> y)"
    using mem_rank_keep [OF refl refl, where zs = "zsets st k" and n = c]
    by (intro exI [of _ "fst ` set (drop (length (ranked (zsets st k)) - c) (ranked (zsets st k)))"] conjI)
       (simp_all add: mem_zput_def by_rank_top mem_zset_def)
  let ?ys = "filter (\<lambda>(mb, x). lo \<le> x) (ranked (zsets st k))"
  let ?zs = "take (nat n) (rev ?ys)"
  assume n: "0 < n"
  have srt: "sorted (map snd ?ys)" using ranked_facts(2) by (rule sorted_filter)
  have "distinct (map fst ?ys)" using ranked_facts(1) by (rule distinct_map_filter)
  then have "distinct (map fst (rev ?ys))" by (simp add: rev_map [symmetric])
  then have dist: "distinct (map fst ?zs)" by (metis distinct_take take_map)
  have ord: "sorted_wrt (\<ge>) (map snd ?zs)"
    using srt by (simp add: take_map [symmetric] rev_map [symmetric] sorted_wrt_take sorted_wrt_rev)
  have sound: "\<forall>(m, x) \<in> set ?zs. mem_zset st k m = Some x \<and> lo \<le> x"
    by (auto simp: mem_zset_def ranked_mem dest!: in_set_takeD)
  have complete: "(m, x) \<in> set ?zs \<or> int (length ?zs) = n \<and> (\<forall>(m', y) \<in> set ?zs. x \<le> y)"
    if "mem_zset st k m = Some x" "lo \<le> x" for m x
  proof (cases "(m, x) \<in> set ?zs")
    case False
    have y: "(m, x) \<in> set ?ys" using that by (simp add: mem_zset_def ranked_mem)
    have "nat n \<le> length ?ys"
    proof (rule ccontr)
      assume "\<not> nat n \<le> length ?ys"
      then have "?zs = rev ?ys" by simp
      with False y show False by (metis set_rev)
    qed
    then have "int (length ?zs) = n" using n by simp
    moreover have "\<forall>(m', y) \<in> set ?zs. x \<le> y"
      using take_rev_best [OF srt y False] by fastforce
    ultimately show ?thesis by blast
  qed simp
  have "int (length ?zs) \<le> n" using n by simp
  then show "\<exists>zs. fst (redis (mem_env E) t (ZREVRANGEBYSCORE k lo n) st) = RScored zs \<and>
      distinct (map fst zs) \<and> int (length zs) \<le> n \<and> sorted_wrt (\<ge>) (map snd zs) \<and>
      (\<forall>(m, x) \<in> set zs. mem_zset st k m = Some x \<and> lo \<le> x) \<and>
      (\<forall>m x. mem_zset st k m = Some x \<longrightarrow> lo \<le> x \<longrightarrow>
         (m, x) \<in> set zs \<or> int (length zs) = n \<and> (\<forall>(m', y) \<in> set zs. x \<le> y))"
    using dist ord sound complete by (intro exI [of _ ?zs]) simp
qed

end
