(* ===== verification/IPv6Text.thy ===== *)
theory IPv6Text
  imports NetIP
begin

text \<open>
  The text form of IPv6 addresses: what \<open>IP.String\<close> prints, with the longest run of zero groups
  compressed, \<open>net.ParseIP\<close> reads back to the same sixteen bytes.
\<close>

section \<open>Hexadecimal groups\<close>

lemma hex_val_digit [simp]: "d < 16 \<Longrightarrow> hex_val (hex_digit d) = Some d"
  by (auto simp: hex_val_def hex_digit_def Let_def of_char_of take_bit_eq_mod)

lemma hex_digit_seps: "d < 16 \<Longrightarrow> hex_digit d \<noteq> CHR '':'' \<and> hex_digit d \<noteq> CHR ''.''"
proof (intro conjI notI)
  assume d: "d < 16"
  have c: "(of_char (hex_digit d) :: nat) = (if d < 10 then 48 + d else 87 + d)"
    using d by (simp add: hex_digit_def of_char_of take_bit_eq_mod)
  show False if "hex_digit d = CHR '':''" using c d unfolding that by (simp split: if_splits)
  show False if "hex_digit d = CHR ''.''" using c d unfolding that by (simp split: if_splits)
qed

lemma read_hex_append:
  "read_hex acc (s @ t) = (case read_hex acc s of None \<Rightarrow> None | Some v \<Rightarrow> read_hex v t)"
  by (induction s arbitrary: acc) (auto split: option.splits)

lemma show_hex_facts:
  "read_hex 0 (show_hex n) = Some n \<and> show_hex n \<noteq> [] \<and> CHR '':'' \<notin> set (show_hex n) \<and> CHR ''.'' \<notin> set (show_hex n)"
proof (induction n rule: show_hex.induct)
  case (1 n)
  show ?case
  proof (cases "n < 16")
    case True
    then show ?thesis using hex_digit_seps [of n] by (subst (1 2 3 4) show_hex.simps) auto
  next
    case False
    with 1 have IH: "read_hex 0 (show_hex (n div 16)) = Some (n div 16)"
      "CHR '':'' \<notin> set (show_hex (n div 16))" "CHR ''.'' \<notin> set (show_hex (n div 16))" by auto
    have eq: "show_hex n = show_hex (n div 16) @ [hex_digit (n mod 16)]"
      using False by (subst show_hex.simps) simp
    show ?thesis unfolding eq using IH hex_digit_seps [of "n mod 16"] by (auto simp: read_hex_append)
  qed
qed

lemma show_hex_length: "n < 16 ^ k \<Longrightarrow> 0 < k \<Longrightarrow> length (show_hex n) \<le> k"
proof (induction k arbitrary: n)
  case (Suc k)
  show ?case
  proof (cases "n < 16")
    case True
    then show ?thesis by (subst show_hex.simps) simp
  next
    case False
    then have eq: "show_hex n = show_hex (n div 16) @ [hex_digit (n mod 16)]" by (subst show_hex.simps) simp
    from False Suc.prems have "0 < k" "n div 16 < 16 ^ k" by (cases k; auto simp: less_mult_imp_div_less mult.commute)+
    with Suc.IH show ?thesis unfolding eq by simp
  qed
qed simp

definition group_bytes :: "nat \<Rightarrow> ip" where
  "group_bytes n = [of_nat (n div 256), of_nat (n mod 256)]"

lemma parse_group_show: "n < 65536 \<Longrightarrow> parse_group (show_hex n) = Some (group_bytes n)"
  using show_hex_facts [of n] show_hex_length [of n 4] by (simp add: parse_group_def group_bytes_def)

lemma parse_groups_show:
  "list_all (\<lambda>n. n < 65536) gs \<Longrightarrow> parse_groups tail (map show_hex gs) = Some (concat (map group_bytes gs))"
proof (induction gs rule: induct_list012)
  case (3 x y zs)
  then show ?case by (simp add: parse_group_show)
qed (simp_all add: parse_group_show)

lemma parse_side_join:
  assumes "list_all (\<lambda>n. n < 65536) gs"
  shows "parse_side tail (join_groups gs) = Some (concat (map group_bytes gs))"
proof (cases gs)
  case Nil
  then show ?thesis by (simp add: parse_side_def join_groups_def)
next
  case (Cons g gs')
  then have ne: "join_groups gs \<noteq> []" using show_hex_facts [of g] by (cases gs') (simp_all add: join_groups_def)
  have "split_on (CHR '':'') (join_groups gs) = map show_hex gs"
    unfolding join_groups_def using show_hex_facts Cons by (intro split_on_join) (auto simp: list_all_iff)
  with ne assms show ?thesis by (simp add: parse_side_def parse_groups_show)
qed

section \<open>The ellipsis\<close>

definition on_left :: "string \<Rightarrow> (string \<times> string) option \<Rightarrow> (string \<times> string) option" where
  "on_left x v = (case v of None \<Rightarrow> None | Some (l, r) \<Rightarrow> Some (x @ l, r))"

lemma on_left_append: "on_left x (on_left y v) = on_left (x @ y) v"
  by (simp add: on_left_def split: option.splits)

lemma split_ellipsis_plain: "CHR '':'' \<notin> set x \<Longrightarrow> split_ellipsis (x @ r) = on_left x (split_ellipsis r)"
proof (induction x)
  case Nil
  then show ?case by (simp add: on_left_def split: option.splits)
next
  case (Cons c x)
  have "split_ellipsis (c # s) = on_left [c] (split_ellipsis s)" for s
    using Cons.prems by (cases s) (auto simp: on_left_def split: option.splits)
  with Cons show ?case by (simp add: on_left_append)
qed

lemma split_ellipsis_colon:
  "r \<noteq> [] \<Longrightarrow> hd r \<noteq> CHR '':'' \<Longrightarrow> split_ellipsis (CHR '':'' # r) = on_left '':'' (split_ellipsis r)"
  by (cases r) (auto simp: on_left_def split: option.splits)

lemma split_ellipsis_join:
  "list_all (\<lambda>x. x \<noteq> [] \<and> CHR '':'' \<notin> set x) xs \<Longrightarrow>
   split_ellipsis (join_with (CHR '':'') xs @ r) = on_left (join_with (CHR '':'') xs) (split_ellipsis r)"
proof (induction "CHR '':''" xs rule: join_with.induct)
  case 1
  then show ?case by (simp add: on_left_def split: option.splits)
next
  case (2 x)
  then show ?case by (simp add: split_ellipsis_plain)
next
  case (3 x y ys)
  let ?j = "join_with (CHR '':'') (y # ys) @ r"
  have "?j \<noteq> []" "hd ?j \<noteq> CHR '':''"
    using "3.prems" by (cases ys; cases y; auto)+
  then have "split_ellipsis (x @ CHR '':'' # ?j) = on_left x (on_left '':'' (split_ellipsis ?j))"
    using "3.prems" by (simp add: split_ellipsis_plain split_ellipsis_colon)
  with 3 show ?case by (simp add: on_left_append)
qed

lemma split_ellipsis_groups:
  "split_ellipsis (join_groups gs) = None"
  "split_ellipsis (join_groups gs @ CHR '':'' # CHR '':'' # t) = Some (join_groups gs, t)"
proof -
  have "list_all (\<lambda>x. x \<noteq> [] \<and> CHR '':'' \<notin> set x) (map show_hex gs)"
    using show_hex_facts by (simp add: list_all_iff)
  note J = split_ellipsis_join [OF this]
  show "split_ellipsis (join_groups gs) = None"
    using J [of "[]"] by (simp add: join_groups_def on_left_def)
  show "split_ellipsis (join_groups gs @ CHR '':'' # CHR '':'' # t) = Some (join_groups gs, t)"
    using J [of "CHR '':'' # CHR '':'' # t"] by (simp add: join_groups_def on_left_def)
qed

section \<open>The run of zeros\<close>

lemma zero_run_take: "take (zero_run gs) gs = replicate (zero_run gs) 0 \<and> zero_run gs \<le> length gs"
  by (induction gs) auto

lemma longest_run_zeros:
  assumes "longest_run gs i = (a, b)"
  shows "i \<le> a \<and> a \<le> b \<and> b \<le> i + length gs \<and>
    gs = take (a - i) gs @ replicate (b - a) 0 @ drop (b - i) gs"
  using assms
proof (induction gs arbitrary: i a b)
  case (Cons g gs)
  obtain c d where cd: "longest_run gs (Suc i) = (c, d)" by fastforce
  let ?n = "zero_run (g # gs)"
  show ?case
  proof (cases "0 < ?n \<and> d - c \<le> ?n")
    case True
    with Cons.prems cd have ab: "a = i" "b = i + ?n" by (auto simp: Let_def)
    have "g # gs = take ?n (g # gs) @ drop ?n (g # gs)" by simp
    with zero_run_take [of "g # gs"] ab show ?thesis by simp
  next
    case False
    with Cons.prems cd have ab: "a = c" "b = d" by (auto simp: Let_def)
    note IH = Cons.IH [OF cd]
    then have "a - i = Suc (c - Suc i)" "b - i = Suc (d - Suc i)" using ab by auto
    with IH ab show ?thesis by simp
  qed
qed simp

section \<open>The round trip\<close>

lemma group_parts:
  "x \<le> 255 \<Longrightarrow> y \<le> 255 \<Longrightarrow> x * 256 + y < 65536 \<and> (x * 256 + y) div 256 = x \<and> (x * 256 + y) mod 256 = (y :: nat)"
  by auto

lemma groups_of_bytes:
  "even (length p) \<Longrightarrow> concat (map group_bytes (groups_of p)) = p \<and> list_all (\<lambda>n. n < 65536) (groups_of p) \<and>
     2 * length (groups_of p) = length p"
proof (induction p rule: groups_of.induct)
  case (1 a b rest)
  from group_parts [OF unat_byte_le unat_byte_le, of a b] 1 show ?case by (simp add: group_bytes_def)
qed auto

lemma join_groups_seps:
  "filter (\<lambda>c. c = CHR ''.'' \<or> c = CHR '':'') (join_groups gs) = replicate (length gs - 1) (CHR '':'')"
  unfolding join_groups_def
proof (induction gs rule: induct_list012)
  case (3 x y zs)
  have "filter (\<lambda>c. c = CHR ''.'' \<or> c = CHR '':'') (show_hex x) = []"
    using show_hex_facts [of x] by (auto simp: filter_empty_conv)
  with 3 show ?case by simp
next
  case (2 x)
  then show ?case using show_hex_facts [of x] by (auto simp: filter_empty_conv)
qed simp

lemma parse_ipv6_string:
  assumes "length gs = 8" "list_all (\<lambda>n. n < 65536) gs"
  shows "parse_ipv6 (ipv6_string gs) = concat (map group_bytes gs)"
proof -
  obtain a b where ab: "longest_run gs 0 = (a, b)" by fastforce
  note Z = longest_run_zeros [OF ab]
  then have le: "a \<le> b" "b \<le> 8" using assms(1) by auto
  have len: "length (concat (map group_bytes hs)) = 2 * length hs" for hs
    by (induction hs) (simp_all add: group_bytes_def)
  show ?thesis
  proof (cases "b - a \<le> 1")
    case True
    with ab have "ipv6_string gs = join_groups gs" by (simp add: ipv6_string_def)
    with assms len show ?thesis by (simp add: parse_ipv6_def split_ellipsis_groups(1) parse_side_join)
  next
    case False
    let ?l = "take a gs" and ?r = "drop b gs"
    have s: "ipv6_string gs = join_groups ?l @ ''::'' @ join_groups ?r"
      using False ab by (simp add: ipv6_string_def)
    have ok: "list_all (\<lambda>n. n < 65536) ?l" "list_all (\<lambda>n. n < 65536) ?r"
      using assms(2) by (auto simp: list_all_iff dest: in_set_takeD in_set_dropD)
    have n: "length (concat (map group_bytes ?l)) = 2 * a" "length (concat (map group_bytes ?r)) = 2 * (8 - b)"
      using le assms(1) unfolding len by auto
    have "16 - (2 * a + 2 * (8 - b)) = 2 * (b - a)" "2 * a + 2 * (8 - b) < 16" using False le by auto
    moreover have "concat (replicate k (group_bytes 0)) = replicate (2 * k) 0" for k
      by (induction k) (simp_all add: group_bytes_def)
    moreover have "concat (map group_bytes gs) = concat (map group_bytes ?l) @ concat (replicate (b - a) (group_bytes 0)) @
        concat (map group_bytes ?r)"
      using Z by (metis concat_append diff_zero map_append map_replicate)
    ultimately show ?thesis
      using n by (simp add: s parse_ipv6_def split_ellipsis_groups(2) parse_side_join [OF ok(1)] parse_side_join [OF ok(2)])
  qed
qed

lemma ParseIP_ip_string_v6:
  assumes "length p = 16" "To4 p = []"
  shows "ParseIP (ip_string p) = p"
proof -
  have "p \<noteq> []" using assms(1) by auto
  then have s: "ip_string p = ipv6_string (groups_of p)" using assms by (simp add: ip_string_def)
  have G: "concat (map group_bytes (groups_of p)) = p" "list_all (\<lambda>n. n < 65536) (groups_of p)" "length (groups_of p) = 8"
    using groups_of_bytes [of p] assms(1) by auto
  obtain a b where ab: "longest_run (groups_of p) 0 = (a, b)" by fastforce
  have "\<exists>cs. filter (\<lambda>c. c = CHR ''.'' \<or> c = CHR '':'') (ip_string p) = CHR '':'' # cs"
    unfolding s using G(3) ab
    by (auto simp: ipv6_string_def join_groups_seps numeral_eq_Suc replicate_app_Cons_same split: prod.splits)
  then have "ParseIP (ip_string p) = parse_ipv6 (ip_string p)" by (auto simp: ParseIP_def)
  with parse_ipv6_string [OF G(3,2)] G(1) s show ?thesis by simp
qed

definition valid_ip :: "ip \<Rightarrow> bool" where
  "valid_ip p \<longleftrightarrow> length p = 4 \<or> length p = 16"

text \<open>Every address of either family survives printing and parsing, up to its representation.\<close>

lemma ParseIP_ip_string:
  assumes "valid_ip p"
  shows "ip_equal (ParseIP (ip_string p)) p \<and> length (ParseIP (ip_string p)) = 16"
proof (cases "To4 p = []")
  case True
  with assms have "length p = 16" by (auto simp: valid_ip_def To4_def split: if_splits)
  with True show ?thesis by (simp add: ParseIP_ip_string_v6)
next
  case False
  then show ?thesis by (rule ParseIP_ip_string_v4)
qed

end
