(* ===== verification/Pref.thy ===== *)
theory Pref
  imports Race RedisServer IPv6Text
begin

text \<open>
  \<open>internal/resolver/pref.go\<close> and \<open>pref_redis.go\<close>: the preferred-IP cache and its Redis
  backend.  The Go interface \<open>PrefBackend\<close> is a record of operations, \<open>redisPrefBackend\<close>
  its implementation over hashes.  What the resolver may expect of a backend is the
  locale \<open>pref_backend\<close>; the Redis backend satisfies it under the documented behaviour of
  the hash commands, stated in the locale \<open>redis_hash\<close>.
\<close>

section \<open>Entries and the backend interface\<close>

record PrefEntry =
  pe_IP :: ip
  pe_Via :: string
  pe_RTT :: duration
  pe_Hits :: int
  pe_Updated :: timestamp

record 'r PrefBackend =
  LoadPref :: "string \<Rightarrow> ('r, string + PrefEntry option) io"
  StorePref :: "string \<Rightarrow> PrefEntry \<Rightarrow> duration \<Rightarrow> ('r, string option) io"
  BumpPref :: "string \<Rightarrow> ('r, string option) io"

record 'r prefState =
  ps_backend :: "'r PrefBackend"
  ps_ttl :: duration
  ps_negTTL :: duration
  ps_recheckHits :: int
  ps_recheckAge :: duration

definition EnablePref ::
  "'r PrefBackend \<Rightarrow> duration \<Rightarrow> duration \<Rightarrow> int \<Rightarrow> duration \<Rightarrow> 'r prefState" where
  "EnablePref b ttl negTTL recheckHits recheckAge =
     (let ttl = (if ttl \<le> 0 then 24 * hour else ttl);
          negTTL = (if negTTL \<le> 0 then 10 * minute else negTTL);
          recheckHits = (if recheckHits \<le> 0 then 100 else recheckHits);
          recheckAge = (if recheckAge \<le> 0 then 6 * hour else recheckAge)
      in \<lparr>ps_backend = b, ps_ttl = ttl, ps_negTTL = negTTL, ps_recheckHits = recheckHits,
          ps_recheckAge = recheckAge\<rparr>)"

definition prefKey :: "'r env \<Rightarrow> string \<Rightarrow> u16 \<Rightarrow> string" where
  "prefKey E name qtype = ''dns:pref:'' @ name @ '':'' @ type_string E qtype"

text \<open>\<open>Time.Sub\<close> saturates at the ends of \<open>time.Duration\<close>; the zero \<open>time.Time\<close> is in year 1.\<close>

definition time_sub :: "timestamp \<Rightarrow> timestamp \<Rightarrow> duration" where
  "time_sub a b = max (- (2 ^ 63)) (min (2 ^ 63 - 1) (a - b))"

definition zero_time :: timestamp where
  "zero_time = - 62135596800 * second"

definition time_unix :: "int \<Rightarrow> timestamp" where
  "time_unix sec = sec * second"

section \<open>Consulting and recording\<close>

text \<open>\<open>None\<close> is \<open>done = false\<close>; \<open>Some out\<close> is the final message.\<close>

definition applyPref ::
  "'r env \<Rightarrow> 'r prefState option \<Rightarrow> dns_msg \<Rightarrow> u16 \<Rightarrow> string \<Rightarrow> ip list \<Rightarrow> ('r, dns_msg option) io"
where
  "applyPref E pref msg qtype name ips =
     (case pref of
        None \<Rightarrow> ret None
      | Some ps \<Rightarrow>
          do { res \<leftarrow> LoadPref (ps_backend ps) (prefKey E name qtype);
               case res of
                 Inl err \<Rightarrow> ret None
               | Inr None \<Rightarrow> ret None
               | Inr (Some e) \<Rightarrow>
                   if pe_IP e = nil_ip then ret (Some msg)
                   else if pe_Hits e \<ge> ps_recheckHits ps then ret None
                   else
                     do { t \<leftarrow> now E;
                          if time_sub t (pe_Updated e) > ps_recheckAge ps then ret None
                          else if \<not> ipIn ips (pe_IP e) then ret None
                          else
                            do { _ \<leftarrow> BumpPref (ps_backend ps) (prefKey E name qtype);
                                 ret (Some (narrow msg qtype (pe_IP e))) } } })"

definition storePref ::
  "'r env \<Rightarrow> 'r prefState option \<Rightarrow> string \<Rightarrow> u16 \<Rightarrow> ip \<Rightarrow> string \<Rightarrow> duration \<Rightarrow> ('r, unit) io"
where
  "storePref E pref name qtype p via rtt =
     (case pref of
        None \<Rightarrow> ret ()
      | Some ps \<Rightarrow>
          do { t \<leftarrow> now E;
               _ \<leftarrow> StorePref (ps_backend ps) (prefKey E name qtype)
                      \<lparr>pe_IP = p, pe_Via = via, pe_RTT = rtt, pe_Hits = 1, pe_Updated = t\<rparr>
                      (if p = nil_ip then ps_negTTL ps else ps_ttl ps);
               ret () })"

section \<open>The Redis backend\<close>

text \<open>Reading a missing key of a Go map gives the empty string.\<close>

definition field :: "(string \<rightharpoonup> string) \<Rightarrow> string \<Rightarrow> string" where
  "field vals k = (case vals k of None \<Rightarrow> [] | Some v \<Rightarrow> v)"

definition decode_entry :: "(string \<rightharpoonup> string) \<Rightarrow> PrefEntry" where
  "decode_entry vals =
     \<lparr>pe_IP = (if field vals ''ip'' \<noteq> [] then ParseIP (field vals ''ip'') else nil_ip),
      pe_Via = field vals ''via'',
      pe_RTT = (case parse_int (field vals ''rtt_us'') of
                  Some v \<Rightarrow> dur_mul v microsecond | None \<Rightarrow> 0),
      pe_Hits = (case parse_int (field vals ''hits'') of Some v \<Rightarrow> v | None \<Rightarrow> 0),
      pe_Updated = (case parse_int (field vals ''updated'') of
                      Some v \<Rightarrow> time_unix v | None \<Rightarrow> zero_time)\<rparr>"

definition encode_entry :: "PrefEntry \<Rightarrow> (string \<times> string) list" where
  "encode_entry e =
     [(''ip'', if pe_IP e \<noteq> nil_ip then ip_string (pe_IP e) else []),
      (''via'', pe_Via e),
      (''rtt_us'', itoa (pe_RTT e sdiv microsecond)),
      (''hits'', itoa (pe_Hits e)),
      (''updated'', itoa (pe_Updated e div second))]"

definition redis_LoadPref :: "'r env \<Rightarrow> string \<Rightarrow> ('r, string + PrefEntry option) io" where
  "redis_LoadPref E key =
     do { rep \<leftarrow> call E (HGETALL key);
          ret (case reply_err rep of
                 Some err \<Rightarrow> Inl err
               | None \<Rightarrow>
                   (case rep of
                      RHash vals \<Rightarrow> if length vals = 0 then Inr None else Inr (Some (decode_entry (map_of vals)))
                    | _ \<Rightarrow> Inl ''unexpected reply'')) }"

definition redis_StorePref ::
  "'r env \<Rightarrow> string \<Rightarrow> PrefEntry \<Rightarrow> duration \<Rightarrow> ('r, string option) io" where
  "redis_StorePref E key e ttl = pipeline E [HSET key (encode_entry e), EXPIRE key ttl]"

definition redis_BumpPref :: "'r env \<Rightarrow> string \<Rightarrow> ('r, string option) io" where
  "redis_BumpPref E key =
     do { rep \<leftarrow> call E (HINCRBY key ''hits'' 1); ret (reply_err rep) }"

definition NewRedisPrefBackend :: "'r env \<Rightarrow> 'r PrefBackend" where
  "NewRedisPrefBackend E =
     \<lparr>LoadPref = redis_LoadPref E, StorePref = redis_StorePref E, BumpPref = redis_BumpPref E\<rparr>"

text \<open>\<open>n\<close> resolutions of the same question in a row, as far as the preference cache is concerned.\<close>

fun consult ::
  "'r env \<Rightarrow> 'r prefState \<Rightarrow> dns_msg \<Rightarrow> u16 \<Rightarrow> string \<Rightarrow> ip list \<Rightarrow> nat \<Rightarrow> ('r, dns_msg option list) io"
where
  "consult E ps msg qtype name ips 0 = ret []"
| "consult E ps msg qtype name ips (Suc n) =
     do { res \<leftarrow> applyPref E (Some ps) msg qtype name ips;
          rest \<leftarrow> consult E ps msg qtype name ips n;
          ret (res # rest) }"

text \<open>What the Redis backend shows of a hash, and what is left of an entry after storage.\<close>

definition redis_view ::
  "('r \<Rightarrow> timestamp \<Rightarrow> string \<Rightarrow> (string \<rightharpoonup> string)) \<Rightarrow> 'r \<Rightarrow> timestamp \<Rightarrow> string \<Rightarrow> PrefEntry option"
where
  "redis_view hash_at st t k =
     (if hash_at st t k = Map.empty then None else Some (decode_entry (hash_at st t k)))"

definition redis_written ::
  "('r \<Rightarrow> timestamp \<Rightarrow> string \<Rightarrow> (string \<rightharpoonup> string)) \<Rightarrow> 'r \<Rightarrow> timestamp \<Rightarrow> string \<Rightarrow> bool"
where
  "redis_written hash_at st t k \<longleftrightarrow>
     (\<exists>v i. hash_at st t k ''hits'' = Some v \<and> parse_int v = Some i)"

definition stored_form :: "PrefEntry \<Rightarrow> PrefEntry" where
  "stored_form e = decode_entry (map_of (encode_entry e))"

section \<open>The contract of a backend\<close>

text \<open>
  \<open>view st t k\<close> is the entry that key \<open>k\<close> shows at time \<open>t\<close> when the store is \<open>st\<close>, and
  \<open>norm e\<close> is what survives of \<open>e\<close> in storage.  Loading shows the entry; storing replaces it
  for its lifetime; bumping a live entry that a store wrote adds one hit.
\<close>

locale pref_backend =
  fixes E :: "'r env" and B :: "'r PrefBackend"
    and view :: "'r \<Rightarrow> timestamp \<Rightarrow> string \<Rightarrow> PrefEntry option"
    and written :: "'r \<Rightarrow> timestamp \<Rightarrow> string \<Rightarrow> bool" and norm :: "PrefEntry \<Rightarrow> PrefEntry"
  assumes load_view:
      "fst (run_state (LoadPref B k) w) = Inr (view (store w) (clock E (ticks w)) k)"
    and load_frame:
      "clock E (ticks w) \<le> t \<Longrightarrow>
       view (store (snd (run_state (LoadPref B k) w))) t k' = view (store w) t k'"
    and load_written:
      "clock E (ticks w) \<le> t \<Longrightarrow>
       written (store (snd (run_state (LoadPref B k) w))) t k' = written (store w) t k'"
    and load_ticks: "ticks (snd (run_state (LoadPref B k) w)) = Suc (ticks w)"
    and store_view:
      "in_int64 (pe_Hits e) \<Longrightarrow>
       view (store w) (clock E (ticks w)) k = None \<or>
         view (store w) (clock E (Suc (ticks w))) k \<noteq> None \<Longrightarrow>
       clock E (ticks w) \<le> clock E (Suc (ticks w)) \<Longrightarrow>
       clock E (Suc (ticks w)) \<le> t \<Longrightarrow> t < clock E (Suc (ticks w)) + ttl \<Longrightarrow>
       view (store (snd (run_state (StorePref B k e ttl) w))) t k = Some (norm e) \<and>
       written (store (snd (run_state (StorePref B k e ttl) w))) t k"
    and bump_view:
      "view (store w) (clock E (ticks w)) k = Some e \<Longrightarrow> in_int64 (pe_Hits e + 1) \<Longrightarrow>
       written (store w) (clock E (ticks w)) k \<Longrightarrow>
       clock E (ticks w) \<le> t \<Longrightarrow> view (store w) t k = Some e \<Longrightarrow>
       view (store (snd (run_state (BumpPref B k) w))) t k =
         Some (e\<lparr>pe_Hits := pe_Hits e + 1\<rparr>) \<and>
       written (store (snd (run_state (BumpPref B k) w))) t k"
    and bump_ticks: "ticks (snd (run_state (BumpPref B k) w)) = Suc (ticks w)"
    and norm_hits: "in_int64 (pe_Hits e) \<Longrightarrow> pe_Hits (norm e) = pe_Hits e"
    and norm_negative: "pe_IP e = nil_ip \<Longrightarrow> pe_IP (norm e) = nil_ip"
begin

text \<open>A remembered address is used exactly while it is fresh and still in the answer.\<close>

lemma applyPref_positive:
  assumes "view (store w) (clock E (ticks w)) (prefKey E name qtype) = Some e"
    and "pe_IP e \<noteq> nil_ip" and "ps_backend ps = B"
  shows "fst (run_state (applyPref E (Some ps) msg qtype name ips) w) =
    (if pe_Hits e < ps_recheckHits ps \<and>
        time_sub (clock E (Suc (ticks w))) (pe_Updated e) \<le> ps_recheckAge ps \<and> ipIn ips (pe_IP e)
     then Some (narrow msg qtype (pe_IP e)) else None)"
  using assms load_view [of "prefKey E name qtype" w] load_ticks [of "prefKey E name qtype" w]
  by (auto simp: applyPref_def split: prod.splits)

lemma applyPref_negative:
  assumes "view (store w) (clock E (ticks w)) (prefKey E name qtype) = Some e"
    and "pe_IP e = nil_ip" and "ps_backend ps = B"
  shows "fst (run_state (applyPref E (Some ps) msg qtype name ips) w) = Some msg"
  using assms load_view [of "prefKey E name qtype" w]
  by (auto simp: applyPref_def split: prod.splits)

lemma applyPref_absent:
  assumes "view (store w) (clock E (ticks w)) (prefKey E name qtype) = None"
    and "ps_backend ps = B"
  shows "fst (run_state (applyPref E (Some ps) msg qtype name ips) w) = None"
  using assms load_view [of "prefKey E name qtype" w]
  by (auto simp: applyPref_def split: prod.splits)

text \<open>Using a remembered address costs one hit; refusing to use it changes nothing.\<close>

lemma applyPref_effect:
  assumes "mono (clock E)" and "ps_backend ps = B"
    and "pe_Hits e < ps_recheckHits ps \<Longrightarrow> in_int64 (pe_Hits e + 1)"
    and "\<And>n. ticks w \<le> n \<Longrightarrow> clock E n < H"
    and "\<And>t. clock E (ticks w) \<le> t \<Longrightarrow> t < H \<Longrightarrow>
           view (store w) t (prefKey E name qtype) = Some e \<and> written (store w) t (prefKey E name qtype)"
    and "pe_IP e \<noteq> nil_ip"
    and "run_state (applyPref E (Some ps) msg qtype name ips) w = (res, w')"
    and "clock E (ticks w') \<le> t" and "t < H"
  shows "ticks w \<le> ticks w' \<and> written (store w') t (prefKey E name qtype) \<and>
    view (store w') t (prefKey E name qtype) =
      Some (if res = None then e else e\<lparr>pe_Hits := pe_Hits e + 1\<rparr>)"
proof -
  let ?k = "prefKey E name qtype"
  obtain r1 w1 where L: "run_state (LoadPref B ?k) w = (r1, w1)" by fastforce
  have now_lt: "clock E (ticks w) < H" using assms(4) by simp
  have r1: "r1 = Inr (Some e)" and t1: "ticks w1 = Suc (ticks w)"
    using load_view [of ?k w] load_ticks [of ?k w] assms(5) [OF order_refl now_lt] L by auto
  have later: "clock E (ticks w) \<le> clock E n" if "ticks w \<le> n" for n
    using assms(1) that by (rule monoD)
  have v1: "view (store w1) s ?k = Some e \<and> written (store w1) s ?k"
    if "clock E (ticks w) \<le> s" "s < H" for s
    using load_frame [OF that(1)] load_written [OF that(1)] assms(5) [OF that] L by (metis snd_conv)
  let ?w2 = "w1\<lparr>ticks := Suc (ticks w1)\<rparr>"
  obtain b w3 where bump: "run_state (BumpPref B ?k) ?w2 = (b, w3)" by fastforce
  have v3: "view (store w3) s ?k = Some (e\<lparr>pe_Hits := pe_Hits e + 1\<rparr>) \<and> written (store w3) s ?k"
    if "clock E (ticks ?w2) \<le> s" "s < H" "pe_Hits e < ps_recheckHits ps" for s
  proof -
    have c2: "clock E (ticks w) \<le> clock E (ticks ?w2)" "clock E (ticks ?w2) < H"
      using later assms(4) t1 by simp_all
    have "view (store ?w2) s ?k = Some e" using v1 that c2 by simp
    with v1 [OF c2] that(1) assms(3) [OF that(3)] bump_view [of ?w2 ?k e s] bump show ?thesis by simp
  qed
  have t3: "ticks w3 = Suc (ticks ?w2)" using bump_ticks [of ?k ?w2] bump by simp
  have cases: "res = None \<and> (w' = w1 \<or> w' = ?w2) \<or>
      res \<noteq> None \<and> w' = w3 \<and> pe_Hits e < ps_recheckHits ps"
    using assms(2,6,7) L r1 bump by (auto simp: applyPref_def split: if_splits)
  have ge: "clock E (ticks w) \<le> t" "w' = w3 \<Longrightarrow> clock E (ticks ?w2) \<le> t"
  proof -
    have "ticks w \<le> ticks w'" using cases t1 t3 by auto
    then show "clock E (ticks w) \<le> t" using later assms(8) order_trans by blast
    show "clock E (ticks ?w2) \<le> t" if "w' = w3"
    proof -
      have "ticks ?w2 \<le> ticks w'" using t3 that by simp
      then have "clock E (ticks ?w2) \<le> clock E (ticks w')" by (rule monoD [OF assms(1)])
      with assms(8) show ?thesis by simp
    qed
  qed
  from cases ge v1 v3 assms(9) t1 t3 show ?thesis by auto
qed

text \<open>However often it is consulted, an entry is reused at most until its hit limit.\<close>

lemma consult_bounded:
  assumes "mono (clock E)" and "ps_backend ps = B" and "in_int64 (ps_recheckHits ps)"
    and "\<And>n. clock E n < H" and "pe_IP e \<noteq> nil_ip" and "- (2 ^ 63) \<le> pe_Hits e"
    and "\<And>t. clock E (ticks w) \<le> t \<Longrightarrow> t < H \<Longrightarrow>
           view (store w) t (prefKey E name qtype) = Some e \<and> written (store w) t (prefKey E name qtype)"
  shows "int (length (filter (\<lambda>x. x \<noteq> None)
           (fst (run_state (consult E ps msg qtype name ips n) w)))) \<le> max 0 (ps_recheckHits ps - pe_Hits e)"
  using assms(5-7)
proof (induction n arbitrary: w e)
  case 0
  then show ?case by simp
next
  case (Suc n)
  let ?k = "prefKey E name qtype"
  obtain res w' where A: "run_state (applyPref E (Some ps) msg qtype name ips) w = (res, w')"
    by fastforce
  have e: "view (store w) (clock E (ticks w)) ?k = Some e" using Suc.prems(3) assms(4) by simp
  have used: "res \<noteq> None \<Longrightarrow> pe_Hits e < ps_recheckHits ps"
    using applyPref_positive [OF e Suc.prems(1) assms(2)] A by (metis fst_conv)
  have fits: "pe_Hits e < ps_recheckHits ps \<Longrightarrow> in_int64 (pe_Hits e + 1)"
    using assms(3) Suc.prems(2) by (auto simp: in_int64_def)
  let ?e = "if res = None then e else e\<lparr>pe_Hits := pe_Hits e + 1\<rparr>"
  have eff: "written (store w') t ?k \<and> view (store w') t ?k = Some ?e"
    if "clock E (ticks w') \<le> t" "t < H" for t
    using applyPref_effect [OF assms(1,2) fits assms(4) Suc.prems(3,1) A that] by simp
  have "int (length (filter (\<lambda>x. x \<noteq> None)
      (fst (run_state (consult E ps msg qtype name ips n) w')))) \<le> max 0 (ps_recheckHits ps - pe_Hits ?e)"
    using Suc.prems(1,2) eff by (intro Suc.IH) (auto split: if_splits)
  with A used show ?case by (auto split: prod.splits if_splits)
qed

end

section \<open>The Redis backend satisfies the contract\<close>

lemma decode_entry_hits:
  "in_int64 i \<Longrightarrow> decode_entry (m(''hits'' \<mapsto> itoa i)) = (decode_entry m)\<lparr>pe_Hits := i\<rparr>"
  by (simp add: decode_entry_def field_def parse_int_itoa)

lemma decode_entry_overwrite:
  "decode_entry (m ++ map_of (encode_entry e)) = stored_form e"
  by (simp add: decode_entry_def stored_form_def encode_entry_def field_def map_add_def)

lemma distinct_encode_entry: "distinct (map fst (encode_entry e))"
  by (simp add: encode_entry_def)

lemma encode_entry_hits: "map_of (encode_entry e) ''hits'' = Some (itoa (pe_Hits e))"
  by (simp add: encode_entry_def)

lemma stored_form_hits: "in_int64 (pe_Hits e) \<Longrightarrow> pe_Hits (stored_form e) = pe_Hits e"
  by (simp add: stored_form_def decode_entry_def encode_entry_def field_def parse_int_itoa)

lemma stored_form_negative: "pe_IP e = nil_ip \<Longrightarrow> pe_IP (stored_form e) = nil_ip"
  by (simp add: stored_form_def decode_entry_def encode_entry_def field_def)

lemma ip_string_nonempty: "valid_ip p \<Longrightarrow> ip_string p \<noteq> []"
  using ParseIP_ip_string [of p] by (auto simp: ParseIP_def)

lemma stored_form_address:
  assumes "valid_ip (pe_IP e)"
  shows "ip_equal (pe_IP (stored_form e)) (pe_IP e)" "pe_IP (stored_form e) \<noteq> nil_ip"
proof -
  have "pe_IP e \<noteq> []" using assms by (auto simp: valid_ip_def)
  then have "pe_IP (stored_form e) = ParseIP (ip_string (pe_IP e))"
    using ip_string_nonempty [OF assms]
    by (simp add: stored_form_def decode_entry_def encode_entry_def field_def)
  with ParseIP_ip_string [OF assms] show "ip_equal (pe_IP (stored_form e)) (pe_IP e)"
    "pe_IP (stored_form e) \<noteq> nil_ip" by auto
qed

context redis_hash
begin

lemma load_run:
  assumes "run_state (redis_LoadPref E k) w = (res, w')"
  shows "res = Inr (redis_view hash_at (store w) (clock E (ticks w)) k) \<and>
    ticks w' = Suc (ticks w) \<and>
    (\<forall>t k'. clock E (ticks w) \<le> t \<longrightarrow> hash_at (store w') t k' = hash_at (store w) t k')"
proof -
  obtain kvs st where r: "redis E (clock E (ticks w)) (HGETALL k) (store w) = (RHash kvs, st)"
    and kvs: "map_of kvs = hash_at (store w) (clock E (ticks w)) k"
    using hgetall_reply [of "clock E (ticks w)" k "store w"] by (metis prod.collapse)
  have "hash_at st t k' = hash_at (store w) t k'" if "clock E (ticks w) \<le> t" for t k'
    using hgetall_frame [OF that, of k "store w" k'] r by simp
  with r assms show ?thesis
    by (auto simp: redis_LoadPref_def redis_view_def kvs [symmetric] map_of_empty_iff)
qed

lemma store_run:
  assumes "run_state (redis_StorePref E k e ttl) w = (res, w')"
    and "hash_at (store w) (clock E (ticks w)) k = Map.empty \<or>
         hash_at (store w) (clock E (Suc (ticks w))) k \<noteq> Map.empty"
    and "clock E (ticks w) \<le> clock E (Suc (ticks w))" "clock E (Suc (ticks w)) \<le> t"
    and "t < clock E (Suc (ticks w)) + ttl"
  shows "\<exists>m. hash_at (store w') t k = m ++ map_of (encode_entry e)"
proof -
  let ?t0 = "clock E (ticks w)" and ?t1 = "clock E (Suc (ticks w))"
  obtain r1 s1 where h: "redis E ?t0 (HSET k (encode_entry e)) (store w) = (r1, s1)" by fastforce
  obtain r2 s2 where x: "redis E ?t1 (EXPIRE k ttl) s1 = (r2, s2)" by fastforce
  obtain m where m: "hash_at s1 ?t1 k = m ++ map_of (encode_entry e)"
  proof (cases "hash_at (store w) ?t0 k = Map.empty")
    case True
    with hset_fresh [OF True assms(3) distinct_encode_entry [of e]] h that [of Map.empty]
    show ?thesis by simp
  next
    case False
    with hset_live [OF False assms(3) distinct_encode_entry [of e]] h assms(2) that
    show ?thesis by simp
  qed
  then have "hash_at s1 ?t1 k \<noteq> Map.empty"
    by (auto simp: encode_entry_def fun_eq_iff map_add_def)
  then have "hash_at s2 t k = hash_at s1 ?t1 k"
    using expire_live [of s1 ?t1 k t ttl] x assms(4,5) by simp
  moreover have "store w' = s2"
    using assms(1) h x by (auto simp: redis_StorePref_def split: prod.splits)
  ultimately show ?thesis using m by auto
qed

lemma bump_run:
  "store (snd (run_state (redis_BumpPref E k) w)) =
     snd (redis E (clock E (ticks w)) (HINCRBY k ''hits'' 1) (store w)) \<and>
   ticks (snd (run_state (redis_BumpPref E k) w)) = Suc (ticks w)"
  by (simp add: redis_BumpPref_def split: prod.splits)

end

sublocale redis_hash \<subseteq> pref_backend E "NewRedisPrefBackend E" "redis_view hash_at"
    "redis_written hash_at" stored_form
proof
  fix k k' :: string and w :: "'r world" and t :: timestamp and e :: PrefEntry and ttl :: duration
  let ?L = "run_state (LoadPref (NewRedisPrefBackend E) k) w"
  note L = load_run [of k w "fst ?L" "snd ?L"]
  show "fst ?L = Inr (redis_view hash_at (store w) (clock E (ticks w)) k)"
    and "ticks (snd ?L) = Suc (ticks w)"
    using L by (simp_all add: NewRedisPrefBackend_def)
  show "redis_view hash_at (store (snd ?L)) t k' = redis_view hash_at (store w) t k'"
    and "redis_written hash_at (store (snd ?L)) t k' = redis_written hash_at (store w) t k'"
    if "clock E (ticks w) \<le> t"
    using L that by (simp_all add: NewRedisPrefBackend_def redis_view_def redis_written_def)
  let ?S = "run_state (StorePref (NewRedisPrefBackend E) k e ttl) w"
  show "redis_view hash_at (store (snd ?S)) t k = Some (stored_form e) \<and>
      redis_written hash_at (store (snd ?S)) t k"
    if hyp: "in_int64 (pe_Hits e)"
      "redis_view hash_at (store w) (clock E (ticks w)) k = None \<or>
         redis_view hash_at (store w) (clock E (Suc (ticks w))) k \<noteq> None"
      "clock E (ticks w) \<le> clock E (Suc (ticks w))" "clock E (Suc (ticks w)) \<le> t"
      "t < clock E (Suc (ticks w)) + ttl"
  proof -
    obtain m where m: "hash_at (store (snd ?S)) t k = m ++ map_of (encode_entry e)"
      using store_run [of k e ttl w "fst ?S" "snd ?S" t] hyp
      by (auto simp: NewRedisPrefBackend_def redis_view_def split: if_splits)
    then have "hash_at (store (snd ?S)) t k ''hits'' = Some (itoa (pe_Hits e))"
      by (simp add: encode_entry_hits)
    with m hyp(1) show ?thesis
      by (auto simp: redis_view_def redis_written_def decode_entry_overwrite parse_int_itoa)
  qed
  let ?B = "run_state (BumpPref (NewRedisPrefBackend E) k) w"
  show "ticks (snd ?B) = Suc (ticks w)"
    using bump_run [of k w] by (simp add: NewRedisPrefBackend_def)
  show "redis_view hash_at (store (snd ?B)) t k = Some (e\<lparr>pe_Hits := pe_Hits e + 1\<rparr>) \<and>
      redis_written hash_at (store (snd ?B)) t k"
    if hyp: "redis_view hash_at (store w) (clock E (ticks w)) k = Some e" "in_int64 (pe_Hits e + 1)"
      "redis_written hash_at (store w) (clock E (ticks w)) k" "clock E (ticks w) \<le> t"
      "redis_view hash_at (store w) t k = Some e"
  proof -
    from hyp(3) obtain v i where v: "hash_at (store w) (clock E (ticks w)) k ''hits'' = Some v"
      "parse_int v = Some i" by (auto simp: redis_written_def)
    with hyp(1) have "pe_Hits e = i"
      by (auto simp: redis_view_def decode_entry_def field_def split: if_splits)
    moreover from hyp(5) have "hash_at (store w) t k \<noteq> Map.empty"
      by (auto simp: redis_view_def split: if_splits)
    ultimately have "hash_at (store (snd ?B)) t k =
        (hash_at (store w) t k)(''hits'' \<mapsto> itoa (pe_Hits e + 1))"
      using hincrby_live [OF v _ hyp(4)] hyp(2) bump_run [of k w]
      by (simp add: NewRedisPrefBackend_def)
    with hyp(2,5) show ?thesis
      by (auto simp: redis_view_def redis_written_def decode_entry_hits parse_int_itoa
          split: if_splits)
  qed
qed (simp_all add: stored_form_hits stored_form_negative)

context redis_hash
begin

lemma pref_contract:
  "pref_backend E (NewRedisPrefBackend E) (redis_view hash_at) (redis_written hash_at) stored_form"
  by unfold_locales

end

lemmas redis_pref_contract = redis_hash.pref_contract

interpretation mem_pref: pref_backend "mem_env E" "NewRedisPrefBackend (mem_env E)"
    "redis_view mem_hash" "redis_written mem_hash" stored_form for E :: "'r env"
  by (rule redis_pref_contract [OF mem_hashes.redis_hash_axioms])

section \<open>Properties\<close>

text \<open>
  The preference cache is only ever a narrowing hint: whatever the backend answers, a
  message it finishes is either the upstream's message untouched or that message narrowed
  to an address that the upstream's current answer contains.
\<close>

theorem applyPref_only_narrows:
  assumes "run_state (applyPref E pref msg qtype name ips) w = (Some out, w')"
  shows "out = msg \<or> (\<exists>p. ipIn ips p \<and> out = narrow msg qtype p)"
  using assms
  by (auto simp: applyPref_def split: option.splits prod.splits sum.splits if_splits)

text \<open>
  C21: Remembering and recalling a winner over Redis: after \<open>StorePref\<close> of an IPv4 or IPv6 winner,
  and as long as the new lifetime lasts, \<open>LoadPref\<close> returns an entry with an equal address, the
  same route and the same hit count, whether the key was absent before or held another entry,
  whatever its fields.  Only an old entry that expires between the pipeline's \<open>HSET\<close> and its
  \<open>EXPIRE\<close> is excluded: it takes the new fields with it.
\<close>

theorem redis_pref_store_load:
  assumes "redis_hash E hash_at" and "valid_ip (pe_IP e)" and "in_int64 (pe_Hits e)"
    and "hash_at (store w) (clock E (ticks w)) k = Map.empty \<or>
         hash_at (store w) (clock E (Suc (ticks w))) k \<noteq> Map.empty"
    and "clock E (ticks w) \<le> clock E (Suc (ticks w))"
    and "run_state (redis_StorePref E k e ttl) w = (res, w')"
    and "clock E (Suc (ticks w)) \<le> clock E (ticks w')"
    and "clock E (ticks w') < clock E (Suc (ticks w)) + ttl"
  shows "\<exists>e'. fst (run_state (redis_LoadPref E k) w') = Inr (Some e') \<and>
    ip_equal (pe_IP e') (pe_IP e) \<and> pe_IP e' \<noteq> nil_ip \<and> pe_Via e' = pe_Via e \<and>
    pe_Hits e' = pe_Hits e"
proof -
  have "redis_view hash_at (store w) (clock E (ticks w)) k = None \<or>
      redis_view hash_at (store w) (clock E (Suc (ticks w))) k \<noteq> None"
    using assms(4) by (auto simp: redis_view_def)
  then have "redis_view hash_at (store w') (clock E (ticks w')) k = Some (stored_form e)"
    using pref_backend.store_view [OF redis_pref_contract [OF assms(1)] assms(3), of w k "clock E (ticks w')" ttl] assms(5-8)
    by (simp add: NewRedisPrefBackend_def)
  with pref_backend.load_view [OF redis_pref_contract [OF assms(1)], of k w'] stored_form_address [OF assms(2)]
    stored_form_hits [OF assms(3)]
  show ?thesis
    by (simp add: NewRedisPrefBackend_def)
       (simp add: stored_form_def decode_entry_def encode_entry_def field_def)
qed

text \<open>
  C20: The hit counter throttles revalidation: while a remembered address stays alive in
  Redis, any number of consultations reuses it at most \<open>recheckHits - hits\<close> times, so a
  fresh race becomes due after at most that many reuses.
\<close>

theorem redis_pref_reuse_bounded:
  assumes "redis_hash E hash_at" and "mono (clock E)" and "\<And>n. clock E n < H"
    and "ps_backend ps = NewRedisPrefBackend E" and "in_int64 (ps_recheckHits ps)"
    and "valid_ip (pe_IP e)" and "in_int64 (pe_Hits e)"
    and "\<And>t. clock E (ticks w) \<le> t \<Longrightarrow> t < H \<Longrightarrow>
           hash_at (store w) t (prefKey E name qtype) = map_of (encode_entry e)"
  shows "int (length (filter (\<lambda>x. x \<noteq> None)
      (fst (run_state (consult E ps msg qtype name ips n) w)))) \<le> max 0 (ps_recheckHits ps - pe_Hits e)"
proof -
  have "map_of (encode_entry e) \<noteq> Map.empty"
    by (simp add: map_of_empty_iff) (simp add: encode_entry_def)
  then have "redis_view hash_at (store w) t (prefKey E name qtype) = Some (stored_form e) \<and>
      redis_written hash_at (store w) t (prefKey E name qtype)"
    if "clock E (ticks w) \<le> t" "t < H" for t
    using assms(8) [OF that] assms(7)
    by (simp add: redis_view_def redis_written_def stored_form_def encode_entry_hits parse_int_itoa)
  moreover have "- (2 ^ 63) \<le> pe_Hits (stored_form e)"
    using assms(7) stored_form_hits [OF assms(7)] by (simp add: in_int64_def)
  ultimately show ?thesis
    using pref_backend.consult_bounded [OF redis_pref_contract [OF assms(1)] assms(2,4,5,3) stored_form_address(2) [OF assms(6)]]
    by (metis assms(7) stored_form_hits)
qed

text \<open>
  C22: A hit recorded on an entry that has just expired turns it into a negative entry that
  never expires: \<open>HINCRBY\<close> creates a hash that holds only the hit counter and has no
  lifetime, so every later lookup of this key reports "nobody answers", for ever.
\<close>

theorem bump_of_expired_entry_is_immortal_negative:
  assumes "redis_hash E hash_at"
    and "hash_at (store w) (clock E (ticks w)) k = Map.empty"
    and "run_state (redis_BumpPref E k) w = (res, w')"
  shows "\<forall>t \<ge> clock E (ticks w). \<exists>e. redis_view hash_at (store w') t k = Some e \<and> pe_IP e = nil_ip"
proof -
  have "hash_at (store w') t k = [''hits'' \<mapsto> itoa 1]" if "clock E (ticks w) \<le> t" for t
    using redis_hash.hincrby_absent [OF assms(1,2) that, of 1 "''hits''"]
      redis_hash.bump_run [OF assms(1), of k w] assms(3) by (simp add: in_int64_def)
  then show ?thesis
    by (auto simp: redis_view_def decode_entry_def field_def)
qed

section \<open>Witnesses\<close>

text \<open>An environment over the in-memory server whose DNS library and network are stubs.\<close>

definition stub_env :: "unit env" where
  "stub_env =
     \<lparr>Fqdn = (\<lambda>s. if s \<noteq> [] \<and> last s = CHR ''.'' then s else s @ ''.''),
      type_string = (\<lambda>t. if t = 1 then ''A'' else if t = 28 then ''AAAA'' else ''TYPE'' @ itoa (uint t)),
      StringToType = (\<lambda>s. if s = ''A'' then Some 1 else if s = ''AAAA'' then Some 28 else None),
      SetReply = id, Pack = (\<lambda>m. Inr ''wire''), Unpack = (\<lambda>b. Inl ''bad message''),
      SetQuestion = (\<lambda>n z t. two_ip_msg), Exchange = (\<lambda>n net d m up. Inr two_ip_msg),
      probes = (\<lambda>n ips. []), redis = (\<lambda>t c st. (ROk, st)), clock = (\<lambda>n. 1000)\<rparr>"

definition start_world :: "mem world" where
  "start_world = \<lparr>store = mem_empty, cmds = [], ticks = 0, countCh = []\<rparr>"

definition winner_entry :: PrefEntry where
  "winner_entry = \<lparr>pe_IP = ip2, pe_Via = ''tcp/443'', pe_RTT = 15000, pe_Hits = 1, pe_Updated = 1000\<rparr>"

lemma stub_clock [simp]: "clock stub_env = (\<lambda>n. 1000)"
  by (simp add: stub_env_def)

lemma mem_hash_empty: "mem_hash mem_empty t k = Map.empty"
  by (simp add: mem_hash_def mem_alist_def mem_empty_def)

theorem applyPref_only_narrows_witness:
  "two_ip_msg = two_ip_msg \<or> (\<exists>p. ipIn [ip1, ip2] p \<and> two_ip_msg = narrow two_ip_msg TypeA p)"
proof -
  let ?B = "\<lparr>LoadPref = (\<lambda>k. ret (Inr (Some (winner_entry\<lparr>pe_IP := nil_ip\<rparr>)))),
      StorePref = (\<lambda>k e ttl. ret None), BumpPref = (\<lambda>k. ret None)\<rparr> :: mem PrefBackend"
  let ?ps = "EnablePref ?B 0 0 0 0"
  have "run_state (applyPref (mem_env stub_env) (Some ?ps) two_ip_msg TypeA ''n'' [ip1, ip2]) start_world =
      (Some two_ip_msg, start_world)"
    by (simp add: applyPref_def EnablePref_def Let_def)
  then show ?thesis by (rule applyPref_only_narrows)
qed

theorem redis_pref_store_load_witness:
  "let old = winner_entry\<lparr>pe_IP := [192, 0, 2, 9], pe_Via := ''icmp'', pe_Hits := 40\<rparr>;
       w = snd (run_state (redis_StorePref (mem_env stub_env) ''k'' old hour) start_world);
       w' = snd (run_state (redis_StorePref (mem_env stub_env) ''k'' winner_entry hour) w)
   in \<exists>e'. fst (run_state (redis_LoadPref (mem_env stub_env) ''k'') w') = Inr (Some e') \<and>
        ip_equal (pe_IP e') (pe_IP winner_entry) \<and> pe_IP e' \<noteq> nil_ip \<and>
        pe_Via e' = pe_Via winner_entry \<and> pe_Hits e' = pe_Hits winner_entry"
  unfolding Let_def
  by (rule redis_pref_store_load [OF mem_hashes.redis_hash_axioms _ _ _ _ prod.collapse [symmetric], where ttl = hour])
     (simp_all add: redis_StorePref_def start_world_def mem_put_def mem_hash_def mem_alist_def mem_empty_def mem_expiry_def
        hset_all_def encode_entry_def winner_entry_def valid_ip_def in_int64_def duration_units)

theorem redis_pref_reuse_bounded_witness:
  "int (length (filter (\<lambda>x. x \<noteq> None)
      (fst (run_state
         (consult (mem_env stub_env) (EnablePref (NewRedisPrefBackend (mem_env stub_env)) 0 0 3 0)
            two_ip_msg TypeA ''n'' [ip1, ip2] 10)
         (snd (run_state (redis_StorePref (mem_env stub_env)
            (prefKey (mem_env stub_env) ''n'' TypeA) winner_entry hour) start_world))))))
   \<le> max 0 (ps_recheckHits (EnablePref (NewRedisPrefBackend (mem_env stub_env)) 0 0 3 0) - pe_Hits winner_entry)"
proof (rule redis_pref_reuse_bounded [where H = 2000, OF mem_hashes.redis_hash_axioms])
  fix t :: timestamp
  let ?k = "prefKey (mem_env stub_env) ''n'' TypeA"
  let ?w = "snd (run_state (redis_StorePref (mem_env stub_env) ?k winner_entry hour) start_world)"
  assume "t < 2000"
  then show "mem_hash (store ?w) t (prefKey (mem_env stub_env) ''n'' TypeA) =
      map_of (encode_entry winner_entry)"
    by (simp add: redis_StorePref_def start_world_def mem_put_def mem_hash_def mem_alist_def
        mem_empty_def mem_expiry_def hset_all_def encode_entry_def duration_units)
qed (simp_all add: EnablePref_def Let_def winner_entry_def valid_ip_def in_int64_def mono_def)

theorem bump_of_expired_entry_is_immortal_negative_witness:
  "\<exists>w' :: mem world. \<forall>t \<ge> 1000. \<exists>e. redis_view mem_hash (store w') t ''k'' = Some e \<and> pe_IP e = nil_ip"
proof -
  let ?R = "run_state (redis_BumpPref (mem_env stub_env) ''k'') start_world"
  have "\<forall>t \<ge> clock (mem_env stub_env) (ticks start_world).
      \<exists>e. redis_view mem_hash (store (snd ?R)) t ''k'' = Some e \<and> pe_IP e = nil_ip"
    by (rule bump_of_expired_entry_is_immortal_negative [OF mem_hashes.redis_hash_axioms, where res = "fst ?R"])
       (simp_all add: start_world_def mem_hash_empty)
  then show ?thesis by (intro exI [of _ "snd ?R"]) simp
qed

end
