(* ===== verification/Resolver.thy ===== *)
theory Resolver
  imports Pref
begin

text \<open>
  \<open>internal/resolver/resolver.go\<close> and \<open>applyRace\<close> of \<open>race.go\<close>: resolving a name upstream,
  narrowing the answer by preference or by race, and \<open>MinTTL\<close>.
\<close>

record 'r Resolver =
  r_upstream :: string
  r_network :: string
  r_timeout :: duration
  r_race :: "raceConfig option"
  r_pref :: "'r prefState option"

definition Resolver_New :: "string \<Rightarrow> string \<Rightarrow> duration \<Rightarrow> 'r Resolver" where
  "Resolver_New upstream network timeout =
     \<lparr>r_upstream = upstream, r_network = network, r_timeout = timeout, r_race = None, r_pref = None\<rparr>"

text \<open>
  The race as the resolver runs it.  The budget is a context with a timeout, so its end is
  always delivered after whatever else the network brings.
\<close>

definition run_race :: "'r env \<Rightarrow> raceConfig \<Rightarrow> nat \<Rightarrow> ip list \<Rightarrow> outcome" where
  "run_race E rc n ips =
     (case pickWinner ips (rc_ports rc) (rc_ping rc) (probes E n ips @ [CtxDone]) of
        Some out \<Rightarrow> out | None \<Rightarrow> nobody)"

definition applyRace :: "'r env \<Rightarrow> 'r Resolver \<Rightarrow> raceConfig \<Rightarrow> dns_msg \<Rightarrow> u16 \<Rightarrow> ('r, dns_msg) io" where
  "applyRace E r rc msg qtype =
     (if m_rcode msg \<noteq> RcodeSuccess then ret msg
      else if qtype \<noteq> TypeA \<and> qtype \<noteq> TypeAAAA then ret msg
      else
        (let ips = answerIPs msg qtype in
         if length ips < 2 then ret msg
         else
           (let name = (if length (m_question msg) > 0 then q_name (m_question msg ! 0) else []) in
            do { pref \<leftarrow> applyPref E (r_pref r) msg qtype name ips;
                 case pref of
                   Some out \<Rightarrow> ret out
                 | None \<Rightarrow>
                     do { n \<leftarrow> tick;
                          let (winner, via, rtt) = run_race E rc n ips in
                            (if winner = nil_ip then
                               do { _ \<leftarrow> storePref E (r_pref r) name qtype nil_ip [] 0; ret msg }
                             else
                               do { _ \<leftarrow> storePref E (r_pref r) name qtype winner via rtt;
                                    ret (narrow msg qtype winner) }) } })))"

definition Resolve :: "'r env \<Rightarrow> 'r Resolver \<Rightarrow> string \<Rightarrow> u16 \<Rightarrow> ('r, string + dns_msg) io" where
  "Resolve E r name qtype =
     do { n \<leftarrow> tick;
          let m = (SetQuestion E n (Fqdn E name) qtype)\<lparr>m_recursion_desired := True\<rparr> in
          (case Exchange E n (r_network r) (r_timeout r) m (r_upstream r) of
             Inl err \<Rightarrow> ret (Inl (''exchange: '' @ err))
           | Inr resp \<Rightarrow>
               (case r_race r of
                  None \<Rightarrow> ret (Inr resp)
                | Some rc \<Rightarrow> do { out \<leftarrow> applyRace E r rc resp qtype; ret (Inr out) })) }"

section \<open>MinTTL\<close>

definition consider_ttl :: "u32 \<Rightarrow> u32 \<Rightarrow> u32" where
  "consider_ttl mn ttl = (if ttl > 0 \<and> (mn = 0 \<or> ttl < mn) then ttl else mn)"

fun scan_answer :: "u32 \<Rightarrow> rr list \<Rightarrow> u32" where
  "scan_answer mn [] = mn"
| "scan_answer mn (r # rs) = scan_answer (consider_ttl mn (rr_ttl (Hdr r))) rs"

fun scan_ns :: "u32 \<Rightarrow> rr list \<Rightarrow> u32" where
  "scan_ns mn [] = mn"
| "scan_ns mn (r # rs) =
     scan_ns (case r of
                RR_SOA h minttl rd \<Rightarrow> consider_ttl (consider_ttl mn (rr_ttl h)) minttl
              | _ \<Rightarrow> consider_ttl mn (rr_ttl (Hdr r))) rs"

definition MinTTL :: "dns_msg \<Rightarrow> u32" where
  "MinTTL m = scan_ns (scan_answer 0 (m_answer m)) (m_ns m)"

text \<open>The reference: the candidate TTLs of a message, and their least positive member.\<close>

definition ns_ttls :: "rr \<Rightarrow> u32 list" where
  "ns_ttls r = (case r of RR_SOA h minttl rd \<Rightarrow> [rr_ttl h, minttl] | _ \<Rightarrow> [rr_ttl (Hdr r)])"

definition candidate_ttls :: "dns_msg \<Rightarrow> u32 list" where
  "candidate_ttls m = map (\<lambda>r. rr_ttl (Hdr r)) (m_answer m) @ concat (map ns_ttls (m_ns m))"

definition least_positive :: "u32 list \<Rightarrow> u32" where
  "least_positive ts =
     (let ps = filter (\<lambda>t. t > 0) ts in if ps = [] then 0 else Min (set ps))"

text \<open>The network reports only about probes that were launched.\<close>

definition honest_probes :: "'r env \<Rightarrow> raceConfig \<Rightarrow> bool" where
  "honest_probes E rc \<longleftrightarrow>
     (\<forall>n ips. possible_events ips (rc_ports rc) (rc_ping rc) (probes E n ips))"

section \<open>Lemmas\<close>

lemma scan_answer_fold: "scan_answer mn rs = foldl consider_ttl mn (map (\<lambda>r. rr_ttl (Hdr r)) rs)"
  by (induction rs arbitrary: mn) auto

lemma scan_ns_fold: "scan_ns mn rs = foldl consider_ttl mn (concat (map ns_ttls rs))"
  by (induction rs arbitrary: mn) (auto simp: ns_ttls_def split: rr.splits)

lemma MinTTL_fold: "MinTTL m = foldl consider_ttl 0 (candidate_ttls m)"
  by (simp add: MinTTL_def scan_answer_fold scan_ns_fold candidate_ttls_def)

lemma consider_simps:
  "consider_ttl mn 0 = mn" "0 < t \<Longrightarrow> consider_ttl 0 t = t" "0 < t \<Longrightarrow> 0 < mn \<Longrightarrow> consider_ttl mn t = min mn t"
  by (auto simp: consider_ttl_def min_def word_gt_0)

lemma foldl_consider_pos:
  "0 < mn \<Longrightarrow> foldl consider_ttl mn ts = Min (insert mn (set (filter (\<lambda>t. t > 0) ts)))"
proof (induction ts arbitrary: mn)
  case Nil
  then show ?case by simp
next
  case (Cons t ts)
  show ?case
  proof (cases "t > 0")
    case True
    with Cons.prems have "0 < min mn t" by (simp add: min_def)
    with Cons.IH [of "min mn t"] Cons.prems True show ?thesis
      by (cases "filter (\<lambda>t. t > 0) ts = []")
         (simp_all add: consider_simps Min_insert2 min.assoc insert_commute
            filter_empty_conv flip: set_empty)
  next
    case False
    with Cons show ?thesis by (simp add: consider_simps word_gt_0)
  qed
qed

lemma foldl_consider_zero: "foldl consider_ttl 0 ts = least_positive ts"
proof (induction ts)
  case Nil
  then show ?case by (simp add: least_positive_def)
next
  case (Cons t ts)
  then show ?case
    by (cases "t > 0") (simp_all add: least_positive_def Let_def consider_simps foldl_consider_pos word_gt_0)
qed

lemma least_positive_facts:
  "least_positive ts = 0 \<longleftrightarrow> (\<forall>t \<in> set ts. t = 0)"
  "\<forall>t \<in> set ts. 0 < t \<longrightarrow> least_positive ts \<le> t"
proof -
  show "least_positive ts = 0 \<longleftrightarrow> (\<forall>t \<in> set ts. t = 0)"
  proof (cases "filter (\<lambda>t. t > 0) ts = []")
    case True
    then show ?thesis by (auto simp: least_positive_def Let_def filter_empty_conv word_gt_0)
  next
    case False
    then have "Min (set (filter (\<lambda>t. t > 0) ts)) \<in> set (filter (\<lambda>t. t > 0) ts)"
      by (intro Min_in) (auto simp: filter_empty_conv)
    with False show ?thesis by (auto simp: least_positive_def Let_def word_gt_0)
  qed
  show "\<forall>t \<in> set ts. 0 < t \<longrightarrow> least_positive ts \<le> t"
    by (auto simp: least_positive_def Let_def filter_empty_conv intro!: Min_le)
qed

lemma uint_pos: "0 < (x :: u32) \<longleftrightarrow> 0 < uint x"
  by (simp add: word_less_def)

lemma seconds_u32: "dur_mul (uint (x :: u32)) second = uint x * second"
proof -
  have "uint x < 2 ^ 32" using uint_lt2p [of x] by simp
  moreover have "- (2 ^ 63) \<le> uint x * second"
    by (rule order_trans [of _ 0]) (simp_all add: second_def)
  ultimately have "in_int64 (uint x * second)" by (simp add: in_int64_def second_def)
  then show ?thesis by (simp add: dur_mul_def wrap64_id)
qed

lemma possible_events_done:
  "possible_events ips ports ping evs \<Longrightarrow> possible_events ips ports ping (evs @ [CtxDone])"
  by (simp add: possible_events_def tcp_reports_def icmp_reports_def List.map_filter_def)

lemma run_race_total:
  "pickWinner ips (rc_ports rc) (rc_ping rc) (probes E n ips @ [CtxDone]) = Some (run_race E rc n ips)"
proof -
  have "pickWinner ips (rc_ports rc) (rc_ping rc) (probes E n ips @ [CtxDone]) \<noteq> None"
    unfolding pickWinner_def by (rule race_loop_returns_done) simp
  then show ?thesis by (auto simp: run_race_def)
qed

lemma run_race_winner:
  assumes "honest_probes E rc" "run_race E rc n ips = (w, via, rtt)" "w \<noteq> nil_ip"
  shows "w \<in> set ips"
proof -
  let ?evs = "probes E n ips @ [CtxDone]"
  have pe: "possible_events ips (rc_ports rc) (rc_ping rc) ?evs"
    using assms(1) by (simp add: honest_probes_def possible_events_done)
  have "earned (race_init (length ips) (length (rc_ports rc)) (rc_ping rc)) ?evs (w, via, rtt)"
    using run_race_total [of ips rc E n] assms(2)
    by (simp add: pickWinner_def) (rule race_loop_earned)
  then have "(\<exists>r. TcpMsg r \<in> set ?evs \<and> t_ip r = w) \<or> (\<exists>p. IcmpMsg p \<in> set ?evs \<and> i_ip p = w)"
    using assms(3) by (auto simp: earned_def race_init_def nobody_def tcpWin_def icmpWin_def)
  then show ?thesis using possible_tcp [OF pe] possible_icmp [OF pe] by blast
qed

lemma storePref_result: "run_state (storePref E pref name qtype p via rtt) w =
    ((), snd (run_state (storePref E pref name qtype p via rtt) w))"
  by (simp add: prod_eq_iff)

lemma applyPref_Some:
  "run_state (applyPref E pref msg qtype name ips) w = (Some out, w') \<Longrightarrow>
   out = msg \<or> (\<exists>p. ipIn ips p \<and> out = narrow msg qtype p)"
  by (auto simp: applyPref_def split: option.splits prod.splits sum.splits if_splits)

lemma applyRace_outcome:
  assumes "honest_probes E rc" "run_state (applyRace E r rc msg qtype) w = (out, w')"
  shows "out = msg \<or> (\<exists>p. ipIn (answerIPs msg qtype) p \<and> out = narrow msg qtype p)"
proof -
  let ?ips = "answerIPs msg qtype"
  let ?name = "if length (m_question msg) > 0 then q_name (m_question msg ! 0) else []"
  obtain pref w1 where P: "run_state (applyPref E (r_pref r) msg qtype ?name ?ips) w = (pref, w1)"
    by fastforce
  obtain win via rtt where R: "run_race E rc (ticks w1) ?ips = (win, via, rtt)"
    by (metis prod.exhaust)
  have "out = msg \<or> pref = Some out \<or> win \<noteq> nil_ip \<and> out = narrow msg qtype win"
    using assms(2) P R
    by (auto simp: applyRace_def Let_def split: if_splits option.splits prod.splits)
  moreover have "ipIn ?ips win" if "win \<noteq> nil_ip"
    using run_race_winner [OF assms(1) R that] by (auto simp: ipIn_iff)
  ultimately show ?thesis using applyPref_Some P by blast
qed

text \<open>The commands the resolver issues concern preference keys only.\<close>

definition pref_cmd :: "redis_cmd \<Rightarrow> bool" where
  "pref_cmd c \<longleftrightarrow>
     (\<exists>k. has_prefix k ''dns:pref:'' \<and>
        (c = HGETALL k \<or> (\<exists>fs. c = HSET k fs) \<or> (\<exists>d. c = EXPIRE k d) \<or> (\<exists>f n. c = HINCRBY k f n)))"

definition redis_backed :: "'r env \<Rightarrow> 'r Resolver \<Rightarrow> bool" where
  "redis_backed E r \<longleftrightarrow>
     (case r_pref r of None \<Rightarrow> True | Some ps \<Rightarrow> ps_backend ps = NewRedisPrefBackend E)"

lemma prefKey_prefix: "has_prefix (prefKey E name qtype) ''dns:pref:''"
  by (simp add: prefKey_def)

lemma pref_cmdI:
  "has_prefix k ''dns:pref:'' \<Longrightarrow> pref_cmd (HGETALL k)"
  "has_prefix k ''dns:pref:'' \<Longrightarrow> pref_cmd (HSET k fs)"
  "has_prefix k ''dns:pref:'' \<Longrightarrow> pref_cmd (EXPIRE k d)"
  "has_prefix k ''dns:pref:'' \<Longrightarrow> pref_cmd (HINCRBY k f n)"
  by (auto simp: pref_cmd_def)

lemma emits_redis_backend [emits_rules]:
  "emits pref_cmd (redis_LoadPref E (prefKey E name qtype))"
  "emits pref_cmd (redis_StorePref E (prefKey E name qtype) e ttl)"
  "emits pref_cmd (redis_BumpPref E (prefKey E name qtype))"
  unfolding redis_LoadPref_def redis_StorePref_def redis_BumpPref_def
  by (auto intro!: emits_rules simp: pref_cmdI prefKey_prefix)

lemma emits_applyPref:
  assumes "redis_backed E r"
  shows "emits pref_cmd (applyPref E (r_pref r) msg qtype name ips)"
proof (cases "r_pref r")
  case None
  then show ?thesis by (simp add: applyPref_def emits_rules)
next
  case (Some ps)
  with assms have b: "ps_backend ps = NewRedisPrefBackend E" by (simp add: redis_backed_def)
  show ?thesis
    unfolding applyPref_def Some option.case b NewRedisPrefBackend_def PrefBackend.simps
    by (intro emits_rules)
qed

lemma emits_storePref:
  assumes "redis_backed E r"
  shows "emits pref_cmd (storePref E (r_pref r) name qtype p via rtt)"
proof (cases "r_pref r")
  case None
  then show ?thesis by (simp add: storePref_def emits_rules)
next
  case (Some ps)
  with assms have b: "ps_backend ps = NewRedisPrefBackend E" by (simp add: redis_backed_def)
  show ?thesis
    unfolding storePref_def Some option.case b NewRedisPrefBackend_def PrefBackend.simps
    by (intro emits_rules)
qed

lemma emits_Resolve [emits_rules]: "redis_backed E r \<Longrightarrow> emits pref_cmd (Resolve E r name qtype)"
  unfolding Resolve_def applyRace_def
  by (intro emits_rules emits_applyPref emits_storePref) assumption+

text \<open>What a race remembers, the next resolution of the same question uses.\<close>

definition question_name :: "dns_msg \<Rightarrow> string" where
  "question_name msg = (if length (m_question msg) > 0 then q_name (m_question msg ! 0) else [])"

definition raced :: "dns_msg \<Rightarrow> u16 \<Rightarrow> bool" where
  "raced msg qtype \<longleftrightarrow> m_rcode msg = RcodeSuccess \<and> (qtype = TypeA \<or> qtype = TypeAAAA) \<and>
     length (answerIPs msg qtype) \<ge> 2"

lemma applyRace_raced:
  assumes "raced msg qtype"
  shows "applyRace E r rc msg qtype =
    do { pref \<leftarrow> applyPref E (r_pref r) msg qtype (question_name msg) (answerIPs msg qtype);
         case pref of
           Some out \<Rightarrow> ret out
         | None \<Rightarrow>
             do { n \<leftarrow> tick;
                  let (winner, via, rtt) = run_race E rc n (answerIPs msg qtype) in
                    (if winner = nil_ip then
                       do { _ \<leftarrow> storePref E (r_pref r) (question_name msg) qtype nil_ip [] 0; ret msg }
                     else
                       do { _ \<leftarrow> storePref E (r_pref r) (question_name msg) qtype winner via rtt;
                            ret (narrow msg qtype winner) }) } }"
  using assms unfolding raced_def applyRace_def question_name_def by (auto simp: Let_def)

lemma narrow_cong: "ip_equal p q \<Longrightarrow> narrow msg qtype p = narrow msg qtype q"
  unfolding narrow_def
  by (rule arg_cong [where f = "\<lambda>f. msg\<lparr>m_answer := filter f (m_answer msg)\<rparr>"])
     (auto simp: fun_eq_iff split: option.splits intro: ip_equal_trans ip_equal_sym)

context pref_backend
begin

lemma applyRace_remembers:
  assumes "mono (clock E)" and "r_pref r = Some ps" and "ps_backend ps = B" and "raced msg qtype"
    and "\<And>t. clock E (ticks w) \<le> t \<Longrightarrow> view (store w) t (prefKey E (question_name msg) qtype) = None"
    and "run_race E rc (Suc (ticks w)) (answerIPs msg qtype) = (p, via, rtt)" and "p \<noteq> nil_ip"
    and "run_state (applyRace E r rc msg qtype) w = (out, w')"
  shows "out = narrow msg qtype p \<and>
    (\<forall>t \<ge> clock E (ticks w + 4). t < clock E (ticks w + 4) + ps_ttl ps \<longrightarrow>
       view (store w') t (prefKey E (question_name msg) qtype) =
         Some (norm \<lparr>pe_IP = p, pe_Via = via, pe_RTT = rtt, pe_Hits = 1,
                     pe_Updated = clock E (ticks w + 2)\<rparr>))"
proof -
  let ?k = "prefKey E (question_name msg) qtype"
  let ?e = "\<lparr>pe_IP = p, pe_Via = via, pe_RTT = rtt, pe_Hits = 1, pe_Updated = clock E (ticks w + 2)\<rparr>"
  obtain l w1 where L: "run_state (LoadPref B ?k) w = (l, w1)" by fastforce
  have l: "l = Inr None" and t1: "ticks w1 = Suc (ticks w)"
    using load_view [of ?k w] load_ticks [of ?k w] assms(5) [OF order_refl] L by auto
  let ?w3 = "w1\<lparr>ticks := Suc (Suc (Suc (ticks w)))\<rparr>"
  obtain s w4 where S: "run_state (StorePref B ?k ?e (ps_ttl ps)) ?w3 = (s, w4)" by fastforce
  have "out = narrow msg qtype p \<and> w' = w4"
    using assms(2,3,6-8) L l t1 S
    by (simp add: applyRace_raced [OF assms(4)] applyPref_def storePref_def numeral_2_eq_2)
  moreover have "clock E (ticks w) \<le> clock E (ticks ?w3)" "clock E (ticks ?w3) \<le> clock E (Suc (ticks ?w3))"
    using assms(1) by (auto intro: monoD)
  moreover from this have "view (store ?w3) (clock E (ticks ?w3)) ?k = None"
    using load_frame [of w "clock E (ticks ?w3)" ?k ?k] assms(5) L by simp
  moreover have "Suc (ticks ?w3) = ticks w + 4" by simp
  ultimately show ?thesis
    using store_view [of ?e ?w3 ?k _ "ps_ttl ps"] S by (simp add: in_int64_def eval_nat_numeral)
qed

end

lemma stored_form_updated:
  "in_int64 (pe_Updated e div second) \<Longrightarrow>
   pe_Updated (stored_form e) = pe_Updated e div second * second"
  by (simp add: stored_form_def decode_entry_def encode_entry_def field_def parse_int_itoa time_unix_def)

section \<open>Properties\<close>

text \<open>
  C19: \<open>MinTTL\<close> is the least positive TTL among the answer records, the authority records and
  the negative-caching minimum of every SOA, and 0 exactly when there is none.
\<close>

theorem MinTTL_correct:
  "MinTTL m = least_positive (candidate_ttls m) \<and>
   (MinTTL m = 0 \<longleftrightarrow> (\<forall>t \<in> set (candidate_ttls m). t = 0)) \<and>
   (\<forall>t \<in> set (candidate_ttls m). 0 < t \<longrightarrow> MinTTL m \<le> t)"
  unfolding MinTTL_fold foldl_consider_zero by (simp add: least_positive_facts)

text \<open>
  C18: Whatever the preference backend answers and in whatever order the probes report, the
  message that \<open>applyRace\<close> returns is the upstream's one or a narrowing of it: every field
  but the answer section is unchanged, the answer section is a subsequence of the
  upstream's that keeps every record of another type, and an answer that had an address of
  the queried type still has one.
\<close>

theorem applyRace_safe:
  assumes "honest_probes E rc" and "run_state (applyRace E r rc msg qtype) w = (out, w')"
  shows "out\<lparr>m_answer := m_answer msg\<rparr> = msg \<and> subseq (m_answer out) (m_answer msg) \<and>
    (\<forall>x \<in> set (m_answer msg). recordIP x qtype = None \<longrightarrow> x \<in> set (m_answer out)) \<and>
    (answerIPs msg qtype \<noteq> [] \<longrightarrow> answerIPs out qtype \<noteq> [])"
proof -
  consider "out = msg" | p where "ipIn (answerIPs msg qtype) p" "out = narrow msg qtype p"
    using applyRace_outcome [OF assms] by blast
  then show ?thesis
  proof cases
    case 1
    then show ?thesis by simp
  next
    case 2
    then have "answerIPs out qtype \<noteq> []" by (auto simp: ipIn_iff dest: answerIPs_narrow)
    with 2 show ?thesis
      using narrow_answer_subseq [of msg qtype p] narrow_keeps_other by (auto simp: narrow_def)
  qed
qed

text \<open>
  Errors, non-address questions and answers with fewer than two distinct addresses pass
  through untouched, and cost nothing: no probe, no Redis command, no clock reading.
\<close>

theorem applyRace_untouched:
  assumes "m_rcode msg \<noteq> RcodeSuccess \<or> qtype \<noteq> TypeA \<and> qtype \<noteq> TypeAAAA \<or>
    length (answerIPs msg qtype) < 2"
  shows "run_state (applyRace E r rc msg qtype) w = (msg, w)"
  using assms by (auto simp: applyRace_def Let_def)

text \<open>
  Without a preference cache the answer is exactly the race's verdict: narrowed to the
  winner when there is one, the upstream's message otherwise, and no Redis command is issued.
\<close>

theorem applyRace_verdict:
  assumes "r_pref r = None" "m_rcode msg = RcodeSuccess" "qtype = TypeA \<or> qtype = TypeAAAA"
    and "length (answerIPs msg qtype) \<ge> 2"
    and "pickWinner (answerIPs msg qtype) (rc_ports rc) (rc_ping rc)
           (probes E (ticks w) (answerIPs msg qtype) @ [CtxDone]) = Some (p, via, rtt)"
  shows "run_state (applyRace E r rc msg qtype) w =
    (if p = nil_ip then msg else narrow msg qtype p, w\<lparr>ticks := Suc (ticks w)\<rparr>)"
proof -
  have "run_race E rc (ticks w) (answerIPs msg qtype) = (p, via, rtt)"
    using assms(5) by (simp add: run_race_def)
  with assms(1-4) show ?thesis
    by (auto simp: applyRace_def applyPref_def storePref_def Let_def)
qed

text \<open>
  C12: A race is not run again while its winner is remembered: once a race over Redis has
  been won by an IPv4 or IPv6 address, the next resolution of the same question answers with that
  address, whatever the network would report, provided the address is still in the answer,
  the entry has not expired and its hit and age limits are not reached.
\<close>

theorem race_winner_is_reused:
  assumes "redis_hash E hash_at" and "mono (clock E)"
    and "r_pref r = Some ps" and "ps_backend ps = NewRedisPrefBackend E" and "ps_recheckHits ps > 1"
    and "raced msg qtype" and "raced msg2 qtype" and "question_name msg2 = question_name msg"
    and "\<And>t. clock E (ticks w) \<le> t \<Longrightarrow>
           hash_at (store w) t (prefKey E (question_name msg) qtype) = Map.empty"
    and "pickWinner (answerIPs msg qtype) (rc_ports rc) (rc_ping rc)
           (probes E (Suc (ticks w)) (answerIPs msg qtype) @ [CtxDone]) = Some (p, via, rtt)"
    and "valid_ip p" and "in_int64 (clock E (ticks w + 2) div second)"
    and "run_state (applyRace E r rc msg qtype) w = (out, w1)"
    and "clock E (ticks w + 4) \<le> clock E (ticks w1)"
    and "clock E (ticks w1) < clock E (ticks w + 4) + ps_ttl ps"
    and "time_sub (clock E (Suc (ticks w1))) (clock E (ticks w + 2) div second * second) \<le> ps_recheckAge ps"
    and "ipIn (answerIPs msg2 qtype) p"
  shows "out = narrow msg qtype p \<and> fst (run_state (applyRace E r rc msg2 qtype) w1) = narrow msg2 qtype p"
proof -
  let ?k = "prefKey E (question_name msg) qtype"
  let ?e = "\<lparr>pe_IP = p, pe_Via = via, pe_RTT = rtt, pe_Hits = 1, pe_Updated = clock E (ticks w + 2)\<rparr>"
  note contract = redis_pref_contract [OF assms(1)]
  have race: "run_race E rc (Suc (ticks w)) (answerIPs msg qtype) = (p, via, rtt)"
    using assms(10) by (simp add: run_race_def)
  have "p \<noteq> nil_ip" using assms(11) by (auto simp: valid_ip_def)
  then have out: "out = narrow msg qtype p"
    and seen: "redis_view hash_at (store w1) (clock E (ticks w1)) ?k = Some (stored_form ?e)"
    using pref_backend.applyRace_remembers [OF contract assms(2-4,6) _ race _ assms(13)] assms(9,14,15)
    by (simp_all add: redis_view_def)
  have sf: "ip_equal (pe_IP (stored_form ?e)) p" "pe_IP (stored_form ?e) \<noteq> nil_ip"
    "pe_Hits (stored_form ?e) = 1" "pe_Updated (stored_form ?e) = clock E (ticks w + 2) div second * second"
    using stored_form_address [of ?e] stored_form_hits [of ?e] stored_form_updated [of ?e] assms(11,12)
    by (simp_all add: in_int64_def)
  have "ipIn (answerIPs msg2 qtype) (pe_IP (stored_form ?e))"
    using assms(17) sf(1) by (auto simp: ipIn_iff intro: ip_equal_trans ip_equal_sym)
  then have "fst (run_state (applyPref E (Some ps) msg2 qtype (question_name msg2) (answerIPs msg2 qtype)) w1)
      = Some (narrow msg2 qtype (pe_IP (stored_form ?e)))"
    using pref_backend.applyPref_positive [OF contract, of w1 "question_name msg2" qtype "stored_form ?e" ps]
      seen sf assms(4,5,8,16) by simp
  with out narrow_cong [OF sf(1)] show ?thesis
    by (auto simp: applyRace_raced [OF assms(7)] assms(3) split: prod.splits)
qed

text \<open>
  C10: \<open>Resolve\<close> asks the configured upstream once, for the fully qualified name with
  recursion desired.  It fails exactly when the upstream does, and then issues no Redis
  command; otherwise its message agrees with the upstream's outside the answer section,
  whose records are a subsequence of the upstream's, and every Redis command it issues
  addresses a preference key.
\<close>

theorem Resolve_safe:
  assumes "\<And>rc. r_race r = Some rc \<Longrightarrow> honest_probes E rc" and "redis_backed E r"
    and "run_state (Resolve E r name qtype) w = (res, w')"
  shows "case Exchange E (ticks w) (r_network r) (r_timeout r)
             ((SetQuestion E (ticks w) (Fqdn E name) qtype)\<lparr>m_recursion_desired := True\<rparr>) (r_upstream r) of
      Inl err \<Rightarrow> res = Inl (''exchange: '' @ err) \<and> cmds w' = cmds w
    | Inr resp \<Rightarrow>
        (\<exists>out cs. res = Inr out \<and> out\<lparr>m_answer := m_answer resp\<rparr> = resp \<and>
           subseq (m_answer out) (m_answer resp) \<and> cmds w' = cmds w @ cs \<and> list_all pref_cmd cs)"
proof (cases "Exchange E (ticks w) (r_network r) (r_timeout r)
    ((SetQuestion E (ticks w) (Fqdn E name) qtype)\<lparr>m_recursion_desired := True\<rparr>) (r_upstream r)")
  case (Inl err)
  with assms(3) show ?thesis by (auto simp: Resolve_def Let_def)
next
  case (Inr resp)
  obtain cs where cs: "cmds w' = cmds w @ cs" "list_all pref_cmd cs"
    using emitsE [OF emits_Resolve [OF assms(2)] assms(3)] by blast
  have "\<exists>out. res = Inr out \<and> out\<lparr>m_answer := m_answer resp\<rparr> = resp \<and>
      subseq (m_answer out) (m_answer resp)"
  proof (cases "r_race r")
    case None
    with Inr assms(3) have "res = Inr resp" by (simp add: Resolve_def Let_def)
    then show ?thesis by simp
  next
    case (Some rc)
    obtain out w2 where A: "run_state (applyRace E r rc resp qtype) (w\<lparr>ticks := Suc (ticks w)\<rparr>) = (out, w2)"
      by fastforce
    with Some Inr assms(3) have "res = Inr out" by (auto simp: Resolve_def Let_def)
    moreover have "out = resp \<or> (\<exists>p. ipIn (answerIPs resp qtype) p \<and> out = narrow resp qtype p)"
      by (rule applyRace_outcome [OF assms(1) [OF Some] A])
    moreover have "(narrow resp qtype p)\<lparr>m_answer := m_answer resp\<rparr> = resp" for p
      by (simp add: narrow_def)
    ultimately show ?thesis using narrow_answer_subseq [of resp qtype] by auto
  qed
  with Inr cs show ?thesis by auto
qed

section \<open>Witnesses\<close>

text \<open>A network in which the second address completes a dial of the first port.\<close>

definition racing_env :: "unit env" where
  "racing_env = stub_env\<lparr>probes := \<lambda>n ips. if ip2 \<in> set ips then [TcpMsg (dialed ip2 0 15 True)] else []\<rparr>"

definition race_both :: raceConfig where
  "race_both = EnableRace [] 0 0 True"

definition plain_resolver :: "'r Resolver" where
  "plain_resolver = (Resolver_New ''192.0.2.53:53'' ''udp'' second)\<lparr>r_race := Some race_both\<rparr>"

definition pref_resolver :: "mem Resolver" where
  "pref_resolver = plain_resolver\<lparr>r_pref := Some (EnablePref (NewRedisPrefBackend (mem_env racing_env)) 0 0 0 0)\<rparr>"

lemma answerIPs_two: "answerIPs two_ip_msg TypeA = [ip1, ip2]"
  by code_simp

lemma raced_two: "raced two_ip_msg TypeA"
  by (simp add: raced_def answerIPs_two) (simp add: two_ip_msg_def Let_def dns_constants)

lemma race_both_fields [simp]: "rc_ports race_both = [443, 80]" "rc_ping race_both"
  by (simp_all add: race_both_def EnableRace_def)

lemma plain_resolver_fields [simp]: "r_race plain_resolver = Some race_both" "r_pref plain_resolver = None"
  by (simp_all add: plain_resolver_def Resolver_New_def)

lemma pref_resolver_fields [simp]: "r_race pref_resolver = Some race_both"
  "r_pref pref_resolver = Some (EnablePref (NewRedisPrefBackend (mem_env racing_env)) 0 0 0 0)"
  by (simp_all add: pref_resolver_def)

lemma racing_env_fields [simp]:
  "probes racing_env n ips = (if ip2 \<in> set ips then [TcpMsg (dialed ip2 0 15 True)] else [])"
  "clock racing_env = (\<lambda>n. 1000)"
  by (simp_all add: racing_env_def)

lemma mem_env_probes [simp]: "probes (mem_env E) = probes E"
  by (simp add: mem_env_def)

lemma racing_honest: "honest_probes (mem_env racing_env) race_both"
proof -
  have "possible_events ips [443, 80] True [TcpMsg (dialed ip2 0 15 True)]" if "ip2 \<in> set ips" for ips
    using that by (simp add: possible_events_def launched_tcp_mem)
  moreover have "possible_events ips [443, 80] True []" for ips
    by (simp add: possible_events_def)
  ultimately show ?thesis by (simp add: honest_probes_def)
qed

lemma ip2_wins:
  "pickWinner [ip1, ip2] [443, 80] True ([TcpMsg (dialed ip2 0 15 True)] @ [CtxDone]) =
     Some (ip2, ''tcp/'' @ itoa 443, 15)"
  by (simp add: pickWinner_def race_init_def race_check_def tcpWin_def)

theorem MinTTL_correct_witness:
  "MinTTL two_ip_msg = least_positive [300, 300, 300] \<and> MinTTL two_ip_msg \<noteq> 0 \<and> MinTTL two_ip_msg \<le> 300"
proof -
  have "candidate_ttls two_ip_msg = [300, 300, 300]" by code_simp
  then show ?thesis using MinTTL_correct [of two_ip_msg] by (simp only: list.set) auto
qed

theorem applyRace_safe_witness:
  "\<exists>out. out\<lparr>m_answer := m_answer two_ip_msg\<rparr> = two_ip_msg \<and>
    subseq (m_answer out) (m_answer two_ip_msg) \<and>
    (\<forall>x \<in> set (m_answer two_ip_msg). recordIP x TypeA = None \<longrightarrow> x \<in> set (m_answer out)) \<and>
    (answerIPs two_ip_msg TypeA \<noteq> [] \<longrightarrow> answerIPs out TypeA \<noteq> [])"
proof -
  let ?R = "run_state (applyRace (mem_env racing_env) plain_resolver race_both two_ip_msg TypeA) start_world"
  have "?R = (fst ?R, snd ?R)" by simp
  from applyRace_safe [OF racing_honest this] show ?thesis by blast
qed

theorem applyRace_untouched_witness:
  "run_state (applyRace (mem_env racing_env) pref_resolver race_both
     (two_ip_msg\<lparr>m_rcode := RcodeServerFailure\<rparr>) TypeA) start_world =
   (two_ip_msg\<lparr>m_rcode := RcodeServerFailure\<rparr>, start_world)"
  by (rule applyRace_untouched) (simp add: dns_constants)

theorem applyRace_verdict_witness:
  "run_state (applyRace (mem_env racing_env) plain_resolver race_both two_ip_msg TypeA) start_world =
    (if ip2 = nil_ip then two_ip_msg else narrow two_ip_msg TypeA ip2,
     start_world\<lparr>ticks := Suc (ticks start_world)\<rparr>)"
proof (rule applyRace_verdict)
  show "pickWinner (answerIPs two_ip_msg TypeA) (rc_ports race_both) (rc_ping race_both)
      (probes (mem_env racing_env) (ticks start_world) (answerIPs two_ip_msg TypeA) @ [CtxDone]) =
    Some (ip2, ''tcp/'' @ itoa 443, 15)"
    using ip2_wins by (simp add: answerIPs_two)
qed (use raced_two in \<open>simp_all add: raced_def\<close>)

theorem race_winner_is_reused_witness:
  "\<exists>out w1. out = narrow two_ip_msg TypeA ip2 \<and>
     fst (run_state (applyRace (mem_env racing_env) pref_resolver race_both two_ip_msg TypeA) w1) =
       narrow two_ip_msg TypeA ip2"
proof -
  let ?E = "mem_env racing_env"
  let ?R = "run_state (applyRace ?E pref_resolver race_both two_ip_msg TypeA) start_world"
  have "fst ?R = narrow two_ip_msg TypeA ip2 \<and>
     fst (run_state (applyRace ?E pref_resolver race_both two_ip_msg TypeA) (snd ?R)) =
       narrow two_ip_msg TypeA ip2"
  proof (rule race_winner_is_reused [where w = start_world and hash_at = mem_hash and
        ps = "EnablePref (NewRedisPrefBackend (mem_env racing_env)) 0 0 0 0", OF mem_hashes.redis_hash_axioms])
    show "pickWinner (answerIPs two_ip_msg TypeA) (rc_ports race_both) (rc_ping race_both)
        (probes ?E (Suc (ticks start_world)) (answerIPs two_ip_msg TypeA) @ [CtxDone]) =
      Some (ip2, ''tcp/'' @ itoa 443, 15)"
      using ip2_wins by (simp add: answerIPs_two)
  qed (simp_all add: raced_two EnablePref_def Let_def start_world_def mem_hash_empty mono_def valid_ip_def
      in_int64_def duration_units time_sub_def answerIPs_two)
  then show ?thesis by blast
qed

theorem Resolve_safe_witness:
  "\<exists>out cs w'. run_state (Resolve (mem_env racing_env) pref_resolver ''example.com'' TypeA) start_world = (Inr out, w') \<and>
     out\<lparr>m_answer := m_answer two_ip_msg\<rparr> = two_ip_msg \<and>
     subseq (m_answer out) (m_answer two_ip_msg) \<and> cmds w' = cs \<and> list_all pref_cmd cs"
proof -
  let ?R = "run_state (Resolve (mem_env racing_env) pref_resolver ''example.com'' TypeA) start_world"
  have b: "redis_backed (mem_env racing_env) pref_resolver"
    by (simp add: redis_backed_def EnablePref_def Let_def)
  have h: "r_race pref_resolver = Some rc \<Longrightarrow> honest_probes (mem_env racing_env) rc" for rc
    using racing_honest by simp
  have R: "?R = (fst ?R, snd ?R)" by simp
  have "Exchange (mem_env racing_env) n net d m up = Inr two_ip_msg" for n net d m up
    by (simp add: mem_env_def racing_env_def stub_env_def)
  with Resolve_safe [OF h b R] obtain out cs where
    "fst ?R = Inr out" "out\<lparr>m_answer := m_answer two_ip_msg\<rparr> = two_ip_msg"
    "subseq (m_answer out) (m_answer two_ip_msg)" "cmds (snd ?R) = cs" "list_all pref_cmd cs"
    by (auto simp: start_world_def)
  with R show ?thesis by (intro exI [of _ out] exI [of _ cs] exI [of _ "snd ?R"]) simp
qed

end
