(* ===== verification/Stats.thy ===== *)
theory Stats
  imports Pref
begin

text \<open>
  \<open>internal/server/stats.go\<close>: query counting and the ranking behind dynamic prefetch.  Scores
  are Redis doubles in the program and real numbers here.  The Go interface \<open>rankStore\<close> is a
  record of operations; the locale \<open>rank_store\<close> is its contract, which the Redis
  implementation meets under the documented behaviour of the sorted-set commands.
\<close>

section \<open>Members\<close>

definition minPrefetchScore :: real where "minPrefetchScore = 2"
definition pruneBelowScore :: real where "pruneBelowScore = 1 / 2"
definition maxCountMembers :: int where "maxCountMembers = 10000"
definition countQueueSize :: nat where "countQueueSize = 4096"

definition countMember :: "'r env \<Rightarrow> string \<Rightarrow> u16 \<Rightarrow> string" where
  "countMember E name qtype = to_lower (Fqdn E name) @ ''|'' @ type_string E qtype"

definition parseMember :: "'r env \<Rightarrow> string \<Rightarrow> (string \<times> u16) option" where
  "parseMember E m =
     (let i = last_index m (CHR ''|'') in
      if i \<le> 0 \<or> i = int (length m) - 1 then None
      else
        (case StringToType E (drop (nat (i + 1)) m) of
           None \<Rightarrow> None
         | Some t \<Rightarrow> Some (take (nat i) m, t)))"

section \<open>Decay and rescheduling\<close>

definition decayFactor :: "duration \<Rightarrow> duration \<Rightarrow> real" where
  "decayFactor halfLife elapsed =
     (if halfLife \<le> 0 \<or> elapsed \<le> 0 then 1
      else (1 / 2) powr (real_of_int elapsed / real_of_int halfLife))"

definition prefetchNextDelay :: "duration \<Rightarrow> duration \<Rightarrow> duration" where
  "prefetchNextDelay ttl sweep =
     (if ttl \<le> 0 then sweep
      else
        (let d = wrap64 (ttl * 4) sdiv 5;
             d = (if d < sweep then sweep else d);
             d = (if d > hour then hour else d)
         in d))"

section \<open>The ranking store\<close>

record scoredMember =
  Member :: string
  Score :: real

record 'r rankStore =
  Top :: "int \<Rightarrow> real \<Rightarrow> ('r, string + scoredMember list) io"
  Decay :: "real \<Rightarrow> ('r, string option) io"

definition redis_Top :: "'r env \<Rightarrow> int \<Rightarrow> real \<Rightarrow> ('r, string + scoredMember list) io" where
  "redis_Top E n minScore =
     do { rep \<leftarrow> call E (ZREVRANGEBYSCORE SetQueryCounts minScore n);
          ret (case reply_err rep of
                 Some err \<Rightarrow> Inl err
               | None \<Rightarrow>
                   (case rep of
                      RScored zs \<Rightarrow> Inr (map (\<lambda>(m, x). \<lparr>Member = m, Score = x\<rparr>) zs)
                    | _ \<Rightarrow> Inl ''unexpected reply'')) }"

definition redis_Decay :: "'r env \<Rightarrow> real \<Rightarrow> ('r, string option) io" where
  "redis_Decay E factor =
     (if factor \<ge> 1 \<or> factor \<le> 0 then ret None
      else pipeline E
        [ZUNIONSTORE SetQueryCounts [(SetQueryCounts, factor)],
         ZREMRANGEBYSCORE_NEGINF SetQueryCounts pruneBelowScore,
         ZREMRANGEBYRANK SetQueryCounts 0 (- maxCountMembers - 1)])"

definition redisRankStore :: "'r env \<Rightarrow> 'r rankStore" where
  "redisRankStore E = \<lparr>Top = redis_Top E, Decay = redis_Decay E\<rparr>"

section \<open>Counting\<close>

text \<open>A send on the bounded channel that gives up when the channel is full or nil.\<close>

definition countQuery :: "'r env \<Rightarrow> bool \<Rightarrow> string \<Rightarrow> u16 \<Rightarrow> ('r, unit) io" where
  "countQuery E hasCh name qtype =
     State (\<lambda>w.
       if \<not> hasCh then ((), w)
       else if length (countCh w) < countQueueSize
         then ((), w\<lparr>countCh := countCh w @ [countMember E name qtype]\<rparr>)
       else ((), w))"

text \<open>
  The counter goroutine: cancellation, a receive from the queue, or a tick.  A receive can
  only be chosen when the queue is not empty.  The result is the batch still held, or \<open>None\<close>
  once the goroutine has returned.
\<close>

datatype counter_event = CDone | CRecv | CTick

definition count_recv :: "('r, string option) io" where
  "count_recv =
     State (\<lambda>w. case countCh w of [] \<Rightarrow> (None, w) | m # ms \<Rightarrow> (Some m, w\<lparr>countCh := ms\<rparr>))"

definition count_flush :: "'r env \<Rightarrow> string list \<Rightarrow> ('r, string list) io" where
  "count_flush E batch =
     (if length batch = 0 then ret batch
      else do { _ \<leftarrow> pipeline E (map (ZINCRBY SetQueryCounts 1) batch); ret [] })"

fun runCounter :: "'r env \<Rightarrow> string list \<Rightarrow> counter_event list \<Rightarrow> ('r, string list option) io" where
  "runCounter E batch [] = ret (Some batch)"
| "runCounter E batch (CDone # evs) = do { _ \<leftarrow> count_flush E batch; ret None }"
| "runCounter E batch (CRecv # evs) =
     do { r \<leftarrow> count_recv;
          case r of
            None \<Rightarrow> runCounter E batch evs
          | Some m \<Rightarrow>
              (let batch = batch @ [m] in
               if length batch \<ge> 256
               then do { batch \<leftarrow> count_flush E batch; runCounter E batch evs }
               else runCounter E batch evs) }"
| "runCounter E batch (CTick # evs) =
     do { batch \<leftarrow> count_flush E batch; runCounter E batch evs }"

text \<open>
  The counter among the queries it counts: each event is a query or a step of the goroutine,
  whose state is its batch, \<open>None\<close> once it has returned.
\<close>

datatype traffic = Query string u16 | Counter counter_event

fun count_traffic :: "'r env \<Rightarrow> string list option \<Rightarrow> traffic list \<Rightarrow> ('r, string list option) io" where
  "count_traffic E b [] = ret b"
| "count_traffic E b (Query name qtype # evs) =
     do { _ \<leftarrow> countQuery E True name qtype; count_traffic E b evs }"
| "count_traffic E None (Counter ev # evs) = count_traffic E None evs"
| "count_traffic E (Some batch) (Counter ev # evs) =
     do { b \<leftarrow> runCounter E batch [ev]; count_traffic E b evs }"

definition asked :: "'r env \<Rightarrow> traffic list \<Rightarrow> string list" where
  "asked E evs = List.map_filter (\<lambda>ev. case ev of Query name qtype \<Rightarrow> Some (countMember E name qtype) | _ \<Rightarrow> None) evs"

section \<open>What is due\<close>

fun dueDynamic ::
  "'r env \<Rightarrow> scoredMember list \<Rightarrow> (string \<rightharpoonup> timestamp) \<Rightarrow> timestamp \<Rightarrow> scoredMember list" where
  "dueDynamic E [] nxt t = []"
| "dueDynamic E (m # ms) nxt t =
     (if parseMember E (Member m) = None then dueDynamic E ms nxt t
      else
        (case nxt (''dyn|'' @ Member m) of
           Some due \<Rightarrow> if t < due then dueDynamic E ms nxt t else m # dueDynamic E ms nxt t
         | None \<Rightarrow> m # dueDynamic E ms nxt t))"

section \<open>The contract of a ranking store\<close>

text \<open>
  \<open>scores st\<close> is the ranking a store state shows.  \<open>Top n lo\<close> returns the best members with a
  score of at least \<open>lo\<close>; \<open>Decay f\<close> scales every score by \<open>f\<close>, drops what falls to the pruning
  line and keeps at most \<open>maxCountMembers\<close> members, the best.
\<close>

definition best_of :: "(string \<rightharpoonup> real) \<Rightarrow> int \<Rightarrow> real \<Rightarrow> scoredMember list \<Rightarrow> bool" where
  "best_of sc n lo ms \<longleftrightarrow>
     distinct (map Member ms) \<and> int (length ms) \<le> n \<and> sorted_wrt (\<ge>) (map Score ms) \<and>
     (\<forall>m \<in> set ms. sc (Member m) = Some (Score m) \<and> lo \<le> Score m) \<and>
     (\<forall>mb x. sc mb = Some x \<longrightarrow> lo \<le> x \<longrightarrow>
        mb \<in> Member ` set ms \<or> int (length ms) = n \<and> (\<forall>m \<in> set ms. x \<le> Score m))"

definition decayed :: "real \<Rightarrow> (string \<rightharpoonup> real) \<Rightarrow> (string \<rightharpoonup> real)" where
  "decayed f sc = (\<lambda>m. case sc m of
     None \<Rightarrow> None
   | Some x \<Rightarrow> if x * f \<le> pruneBelowScore then None else Some (x * f))"

definition capped :: "(string \<rightharpoonup> real) \<Rightarrow> (string \<rightharpoonup> real) \<Rightarrow> bool" where
  "capped sc sc' \<longleftrightarrow>
     sc' \<subseteq>\<^sub>m sc \<and> int (card (dom sc')) = min maxCountMembers (int (card (dom sc))) \<and>
     (\<forall>m x m' y. sc m = Some x \<longrightarrow> sc' m = None \<longrightarrow> sc' m' = Some y \<longrightarrow> x \<le> y)"

locale rank_store =
  fixes R :: "'r rankStore" and scores :: "'r \<Rightarrow> (string \<rightharpoonup> real)"
  assumes top_best:
      "0 < n \<Longrightarrow> \<exists>ms. fst (run_state (Top R n lo) w) = Inr ms \<and> best_of (scores (store w)) n lo ms"
    and decay_scores:
      "0 < f \<Longrightarrow> f < 1 \<Longrightarrow>
       capped (decayed f (scores (store w))) (scores (store (snd (run_state (Decay R f) w))))"
    and decay_off:
      "f \<ge> 1 \<or> f \<le> 0 \<Longrightarrow> run_state (Decay R f) w = (None, w)"
begin

text \<open>Whatever it was, after a decay the ranking is small and holds live members only.\<close>

lemma decay_bounds:
  assumes "0 < f" "f < 1" "scores (store (snd (run_state (Decay R f) w))) m = Some y"
  shows "pruneBelowScore < y \<and> (\<exists>x. scores (store w) m = Some x \<and> y = x * f) \<and>
    int (card (dom (scores (store (snd (run_state (Decay R f) w)))))) \<le> maxCountMembers"
proof -
  have c: "capped (decayed f (scores (store w))) (scores (store (snd (run_state (Decay R f) w))))"
    by (rule decay_scores [OF assms(1,2)])
  then have "decayed f (scores (store w)) m = Some y"
    using assms(3) by (auto simp: capped_def map_le_def dom_def)
  with c show ?thesis by (auto simp: decayed_def capped_def split: option.splits if_splits)
qed

end

section \<open>The Redis store satisfies the contract\<close>

lemma pipeline_snd:
  "snd (run_state (pipeline E []) w) = w"
  "snd (run_state (pipeline E (c # cs)) w) =
     snd (run_state (pipeline E cs) (snd (run_state (call E c) w)))"
  by (simp_all split: prod.splits)

lemma call_snd:
  "store (snd (run_state (call E c) w)) = snd (redis E (clock E (ticks w)) c (store w))"
  "cmds (snd (run_state (call E c) w)) = cmds w @ [c]"
  "countCh (snd (run_state (call E c) w)) = countCh w"
  by (simp_all split: prod.splits)

lemma pipeline_run:
  "cmds (snd (run_state (pipeline E cs) w)) = cmds w @ cs \<and>
   countCh (snd (run_state (pipeline E cs) w)) = countCh w"
  by (induction cs arbitrary: w) (simp_all only: pipeline_snd call_snd append_Nil2 append_assoc
      append_Cons append_Nil simp_thms)

lemma capped_id: "int (card (dom sc)) \<le> maxCountMembers \<Longrightarrow> capped sc sc"
  by (auto simp: capped_def)

context redis_zset
begin

lemma redis_Top_best:
  assumes "0 < n"
  shows "\<exists>ms. fst (run_state (redis_Top E n lo) w) = Inr ms \<and>
    best_of (zset_at (store w) SetQueryCounts) n lo ms"
proof -
  let ?sc = "zset_at (store w) SetQueryCounts"
  obtain zs where r: "fst (redis E (clock E (ticks w)) (ZREVRANGEBYSCORE SetQueryCounts lo n) (store w)) = RScored zs"
    and zs: "distinct (map fst zs)" "int (length zs) \<le> n" "sorted_wrt (\<ge>) (map snd zs)"
      "\<forall>(m, x) \<in> set zs. ?sc m = Some x \<and> lo \<le> x"
      "\<forall>m x. ?sc m = Some x \<longrightarrow> lo \<le> x \<longrightarrow>
         (m, x) \<in> set zs \<or> int (length zs) = n \<and> (\<forall>(m', y) \<in> set zs. x \<le> y)"
    using zrevrange_reply [OF assms, of "clock E (ticks w)" SetQueryCounts lo "store w"] by blast
  let ?ms = "map (\<lambda>(m, x). \<lparr>Member = m, Score = x\<rparr>) zs"
  have f: "map Member ?ms = map fst zs" "map Score ?ms = map snd zs" by (auto simp: case_prod_unfold)
  have "fst (run_state (redis_Top E n lo) w) = Inr ?ms"
    using r by (auto simp: redis_Top_def split: prod.splits)
  moreover have "best_of ?sc n lo ?ms"
    unfolding best_of_def f
  proof (intro conjI allI impI)
    show "\<forall>m \<in> set ?ms. ?sc (Member m) = Some (Score m) \<and> lo \<le> Score m" using zs(4) by auto
    fix mb x
    assume "?sc mb = Some x" "lo \<le> x"
    with zs(5) have "(mb, x) \<in> set zs \<or> int (length zs) = n \<and> (\<forall>(m', y) \<in> set zs. x \<le> y)" by blast
    then show "mb \<in> Member ` set ?ms \<or> int (length ?ms) = n \<and> (\<forall>m \<in> set ?ms. x \<le> Score m)"
      by (force simp: image_iff)
  qed (use zs in simp_all)
  ultimately show ?thesis by blast
qed

lemma redis_Decay_scores:
  assumes "0 < f" "f < 1"
  shows "capped (decayed f (zset_at (store w) SetQueryCounts))
    (zset_at (store (snd (run_state (redis_Decay E f) w))) SetQueryCounts)"
proof -
  let ?k = SetQueryCounts
  let ?cs = "[ZUNIONSTORE ?k [(?k, f)], ZREMRANGEBYSCORE_NEGINF ?k pruneBelowScore]"
  let ?w1 = "snd (run_state (call E (ZUNIONSTORE ?k [(?k, f)])) w)"
  let ?w2 = "snd (run_state (call E (ZREMRANGEBYSCORE_NEGINF ?k pruneBelowScore)) ?w1)"
  let ?w3 = "snd (run_state (call E (ZREMRANGEBYRANK ?k 0 (- maxCountMembers - 1))) ?w2)"
  have end_state: "store (snd (run_state (redis_Decay E f) w)) = store ?w3"
  proof -
    have "\<not> (f \<ge> 1 \<or> f \<le> 0)" using assms by simp
    then show ?thesis unfolding redis_Decay_def by (simp only: if_False pipeline_snd)
  qed
  have two: "zset_at (store ?w2) ?k = decayed f (zset_at (store w) ?k)"
    unfolding call_snd zremrangebyscore_value zunionstore_self
    by (auto simp: decayed_def fun_eq_iff split: option.splits)
  have "- maxCountMembers - 1 = - int 10000 - 1" by (simp add: maxCountMembers_def)
  then obtain keep where k: "zset_at (store ?w3) ?k = zset_at (store ?w2) ?k |` keep"
    "keep \<subseteq> dom (zset_at (store ?w2) ?k)" "card keep = min 10000 (card (dom (zset_at (store ?w2) ?k)))"
    "\<forall>m x m' y. zset_at (store ?w2) ?k m = Some x \<longrightarrow> m \<notin> keep \<longrightarrow>
       zset_at (store ?w2) ?k m' = Some y \<longrightarrow> m' \<in> keep \<longrightarrow> x \<le> y"
    using zremrangebyrank_value [of "clock E (ticks ?w2)" ?k 10000 "store ?w2"]
    by (metis call_snd(1))
  have "dom (zset_at (store ?w3) ?k) = keep" using k(1,2) by auto
  moreover have "zset_at (store ?w3) ?k \<subseteq>\<^sub>m zset_at (store ?w2) ?k"
    unfolding k(1) by (auto simp: map_le_def restrict_map_def)
  moreover have "\<forall>m x m' y. zset_at (store ?w2) ?k m = Some x \<longrightarrow> zset_at (store ?w3) ?k m = None \<longrightarrow>
      zset_at (store ?w3) ?k m' = Some y \<longrightarrow> x \<le> y"
    using k(4) unfolding k(1) by (auto simp: restrict_map_def split: if_splits)
  ultimately show ?thesis
    unfolding capped_def end_state two [symmetric] using k(3) by (simp add: maxCountMembers_def)
qed

lemma count_scores:
  "zset_at (store (snd (run_state (pipeline E (map (ZINCRBY k 1) ms)) w))) k m =
     (if m \<in> set ms
      then Some ((case zset_at (store w) k m of None \<Rightarrow> 0 | Some x \<Rightarrow> x) + real (count_list ms m))
      else zset_at (store w) k m)"
proof (induction ms arbitrary: w)
  case (Cons a ms)
  then show ?case
    by (simp only: list.map pipeline_snd Cons.IH call_snd zincrby_value)
       (auto simp: algebra_simps split: option.splits)
qed simp

end

sublocale redis_zset \<subseteq> rank_store "redisRankStore E" "\<lambda>st. zset_at st SetQueryCounts"
proof
  fix n :: int and lo f :: real and w
  show "\<exists>ms. fst (run_state (Top (redisRankStore E) n lo) w) = Inr ms \<and>
      best_of (zset_at (store w) SetQueryCounts) n lo ms" if "0 < n"
    using redis_Top_best [OF that] by (simp add: redisRankStore_def)
  show "capped (decayed f (zset_at (store w) SetQueryCounts))
      (zset_at (store (snd (run_state (Decay (redisRankStore E) f) w))) SetQueryCounts)"
    if "0 < f" "f < 1"
    using redis_Decay_scores [OF that] by (simp add: redisRankStore_def)
  show "run_state (Decay (redisRankStore E) f) w = (None, w)" if "f \<ge> 1 \<or> f \<le> 0"
    using that by (simp add: redisRankStore_def redis_Decay_def)
qed

context redis_zset
begin

lemma rank_contract: "rank_store (redisRankStore E) (\<lambda>st. zset_at st SetQueryCounts)"
  by unfold_locales

end

lemmas redis_rank_contract = redis_zset.rank_contract

interpretation mem_rank: rank_store "redisRankStore (mem_env E)"
    "\<lambda>st. mem_zset st SetQueryCounts" for E :: "'r env"
  by (rule redis_rank_contract [OF mem_zsets.redis_zset_axioms])

section \<open>Counting lemmas\<close>

lemma sdiv_pos: "0 \<le> a \<Longrightarrow> (a :: int) sdiv 5 = a div 5"
  by (cases "a = 0") (simp_all add: signed_divide_int_def)

lemma count_flush_run:
  assumes "run_state (count_flush E batch) w = (b, w')"
  shows "b = [] \<and> cmds w' = cmds w @ map (ZINCRBY SetQueryCounts 1) batch \<and> countCh w' = countCh w"
  using assms pipeline_run [of E "map (ZINCRBY SetQueryCounts 1) batch" w]
  by (auto simp: count_flush_def split: if_splits prod.splits)

text \<open>What a run of the counter that starts with a batch has received, sent and still holds.\<close>

definition accounted :: "string list \<Rightarrow> 'r world \<Rightarrow> string list option \<Rightarrow> 'r world \<Rightarrow> bool" where
  "accounted batch w res w' \<longleftrightarrow>
     (\<exists>ms sent. countCh w = ms @ countCh w' \<and>
        cmds w' = cmds w @ map (ZINCRBY SetQueryCounts 1) sent \<and>
        (case res of None \<Rightarrow> sent = batch @ ms | Some b \<Rightarrow> sent @ b = batch @ ms))"

lemma accounted_flush:
  assumes "run_state (count_flush E batch) w = (b, w1)" "accounted [] w1 res w'"
  shows "accounted batch w res w'"
proof -
  from assms(2) obtain ms sent where a: "countCh w1 = ms @ countCh w'"
    "cmds w' = cmds w1 @ map (ZINCRBY SetQueryCounts 1) sent"
    "case res of None \<Rightarrow> sent = [] @ ms | Some b \<Rightarrow> sent @ b = [] @ ms"
    unfolding accounted_def by blast
  with count_flush_run [OF assms(1)] show ?thesis
    unfolding accounted_def
    by (intro exI [of _ ms] exI [of _ "batch @ sent"]) (auto split: option.splits)
qed

lemma accounted_recv:
  assumes "countCh w = m # ms" "accounted (batch @ [m]) (w\<lparr>countCh := ms\<rparr>) res w'"
  shows "accounted batch w res w'"
proof -
  from assms(2) obtain ns sent where a: "ms = ns @ countCh w'"
    "cmds w' = cmds w @ map (ZINCRBY SetQueryCounts 1) sent"
    "case res of None \<Rightarrow> sent = (batch @ [m]) @ ns | Some b \<Rightarrow> sent @ b = (batch @ [m]) @ ns"
    by (auto simp: accounted_def)
  with assms(1) show ?thesis
    unfolding accounted_def
    by (intro exI [of _ "m # ns"] exI [of _ sent]) (auto split: option.splits)
qed

lemma runCounter_tick:
  assumes "run_state (runCounter E batch (CTick # evs)) w = (res, w')"
  obtains w1 where "run_state (count_flush E batch) w = ([], w1)"
    and "run_state (runCounter E [] evs) w1 = (res, w')"
proof -
  obtain b w1 where f: "run_state (count_flush E batch) w = (b, w1)" by fastforce
  with count_flush_run [OF f] assms show thesis by (intro that [of w1]) simp_all
qed

lemma runCounter_account:
  "run_state (runCounter E batch evs) w = (res, w') \<Longrightarrow> accounted batch w res w'"
proof (induction evs arbitrary: batch w)
  case Nil
  then show ?case by (auto simp: accounted_def intro!: exI [of _ "[]"])
next
  case (Cons ev evs)
  show ?case
  proof (cases ev)
    case CDone
    obtain b w1 where f: "run_state (count_flush E batch) w = (b, w1)" by fastforce
    with Cons.prems CDone have "res = None" "w' = w1" by auto
    then have "accounted [] w1 res w'" by (simp add: accounted_def)
    with f show ?thesis by (rule accounted_flush)
  next
    case CTick
    with Cons.prems obtain w1 where "run_state (count_flush E batch) w = ([], w1)"
      "run_state (runCounter E [] evs) w1 = (res, w')"
      by (metis runCounter_tick)
    with Cons.IH show ?thesis by (blast intro: accounted_flush)
  next
    case CRecv
    show ?thesis
    proof (cases "countCh w")
      case Nil
      with Cons CRecv show ?thesis by (simp add: count_recv_def)
    next
      case q: (Cons m ms)
      let ?w = "w\<lparr>countCh := ms\<rparr>"
      have "accounted (batch @ [m]) ?w res w'"
      proof (cases "length (batch @ [m]) \<ge> 256")
        case True
        with Cons.prems CRecv q have "run_state (runCounter E (batch @ [m]) (CTick # evs)) ?w = (res, w')"
          by (simp add: count_recv_def Let_def)
        then obtain w1 where "run_state (count_flush E (batch @ [m])) ?w = ([], w1)"
          "run_state (runCounter E [] evs) w1 = (res, w')"
          by (rule runCounter_tick)
        with Cons.IH show ?thesis by (blast intro: accounted_flush)
      next
        case False
        with Cons.prems CRecv q show ?thesis
          by (intro Cons.IH) (simp add: count_recv_def Let_def)
      qed
      with q show ?thesis by (rule accounted_recv)
    qed
  qed
qed

lemma runCounter_batch:
  "run_state (runCounter E batch evs) w = (Some b, w') \<Longrightarrow> length batch < 256 \<Longrightarrow> length b < 256"
proof (induction evs arbitrary: batch w)
  case (Cons ev evs)
  have flushed: "length b < 256"
    if t: "run_state (runCounter E bt (CTick # evs)) v = (Some b, w')" for bt v
  proof -
    from t obtain w1 where "run_state (runCounter E [] evs) w1 = (Some b, w')" by (rule runCounter_tick)
    with Cons.IH [of "[]" w1] show ?thesis by simp
  qed
  show ?case
  proof (cases ev)
    case CDone
    with Cons.prems show ?thesis by (auto split: prod.splits)
  next
    case CTick
    with Cons.prems(1) flushed show ?thesis by blast
  next
    case CRecv
    show ?thesis
    proof (cases "countCh w")
      case Nil
      with Cons CRecv show ?thesis by (simp add: count_recv_def)
    next
      case q: (Cons m ms)
      show ?thesis
      proof (cases "length (batch @ [m]) \<ge> 256")
        case True
        with Cons.prems CRecv q show ?thesis
          by (intro flushed [of "batch @ [m]" "w\<lparr>countCh := ms\<rparr>"]) (simp add: count_recv_def Let_def)
      next
        case False
        with Cons.prems CRecv q show ?thesis
          by (intro Cons.IH [of "batch @ [m]" "w\<lparr>countCh := ms\<rparr>"]) (simp_all add: count_recv_def Let_def)
      qed
    qed
  qed
qed simp

text \<open>The counter among queries: accepted members are written, held or still queued.\<close>

abbreviation held_by :: "string list option \<Rightarrow> string list" where
  "held_by b \<equiv> (case b of Some ms \<Rightarrow> ms | None \<Rightarrow> [])"

definition overflowed :: "'r env \<Rightarrow> string list option \<Rightarrow> traffic list \<Rightarrow> 'r world \<Rightarrow> bool" where
  "overflowed E b evs w \<longleftrightarrow>
     (\<exists>evs1 evs2. evs = evs1 @ evs2 \<and> countQueueSize \<le> length (countCh (snd (run_state (count_traffic E b evs1) w))))"

definition conserved ::
  "'r env \<Rightarrow> string list option \<Rightarrow> traffic list \<Rightarrow> 'r world \<Rightarrow> string list option \<Rightarrow> 'r world \<Rightarrow> bool" where
  "conserved E b evs w res w' \<longleftrightarrow>
     (\<exists>accepted written. subseq accepted (asked E evs) \<and>
        held_by b @ countCh w @ accepted = written @ held_by res @ countCh w' \<and>
        cmds w' = cmds w @ map (ZINCRBY SetQueryCounts 1) written \<and>
        (accepted = asked E evs \<or> overflowed E b evs w))"

lemma asked_simps [simp]:
  "asked E [] = []" "asked E (Query name qtype # evs) = countMember E name qtype # asked E evs"
  "asked E (Counter ev # evs) = asked E evs"
  by (simp_all add: asked_def List.map_filter_simps)

lemma overflowed_now: "countQueueSize \<le> length (countCh w) \<Longrightarrow> overflowed E b evs w"
  unfolding overflowed_def by (intro exI [of _ "[]"] exI [of _ evs]) simp

lemma overflowed_later:
  assumes "overflowed E b1 evs w1" "\<And>es. run_state (count_traffic E b (ev # es)) w = run_state (count_traffic E b1 es) w1"
  shows "overflowed E b (ev # evs) w"
proof -
  from assms(1) obtain evs1 evs2 where "evs = evs1 @ evs2"
    "countQueueSize \<le> length (countCh (snd (run_state (count_traffic E b1 evs1) w1)))" unfolding overflowed_def by blast
  with assms(2) [of evs1] show ?thesis
    unfolding overflowed_def by (intro exI [of _ "ev # evs1"] exI [of _ evs2]) simp
qed

text \<open>A first event that accepts \<open>new\<close> and writes \<open>sent\<close>, and the run after it.\<close>

lemma conserved_Cons:
  assumes "conserved E b1 evs w1 res w'" "cmds w1 = cmds w @ map (ZINCRBY SetQueryCounts 1) sent"
    and "held_by b @ countCh w @ new = sent @ held_by b1 @ countCh w1"
    and "asked E (ev # evs) = new @ asked E evs \<or> new = [] \<and> countQueueSize \<le> length (countCh w)"
    and "subseq new (asked E [ev])" "\<And>es. run_state (count_traffic E b (ev # es)) w = run_state (count_traffic E b1 es) w1"
  shows "conserved E b (ev # evs) w res w'"
proof -
  from assms(1) obtain accepted written where c: "subseq accepted (asked E evs)"
    "held_by b1 @ countCh w1 @ accepted = written @ held_by res @ countCh w'"
    "cmds w' = cmds w1 @ map (ZINCRBY SetQueryCounts 1) written"
    "accepted = asked E evs \<or> overflowed E b1 evs w1" unfolding conserved_def by blast
  have "asked E (ev # evs) = asked E [ev] @ asked E evs" by (cases ev) simp_all
  with c(1) assms(5) have "subseq (new @ accepted) (asked E (ev # evs))" by (simp add: list_emb_append_mono)
  moreover have "held_by b @ countCh w @ new @ accepted = (sent @ written) @ held_by res @ countCh w'"
    using c(2) arg_cong [OF assms(3), of "\<lambda>xs. xs @ accepted"] by simp
  moreover have "new @ accepted = asked E (ev # evs) \<or> overflowed E b (ev # evs) w"
    using assms(4) c(4) overflowed_later [OF _ assms(6), of evs] overflowed_now [of w E b] by auto
  ultimately show ?thesis
    unfolding conserved_def using c(3) assms(2)
    by (intro exI [of _ "new @ accepted"] exI [of _ "sent @ written"]) simp
qed

lemma count_traffic_accounted:
  "run_state (count_traffic E b evs) w = (res, w') \<Longrightarrow> conserved E b evs w res w'"
proof (induction E b evs arbitrary: w rule: count_traffic.induct)
  case (1 E b)
  then show ?case unfolding conserved_def by (intro exI [of _ "[]"]) simp
next
  case (2 E b name qtype evs)
  let ?new = "if length (countCh w) < countQueueSize then [countMember E name qtype] else []"
  let ?w1 = "w\<lparr>countCh := countCh w @ ?new\<rparr>"
  have q: "run_state (countQuery E True name qtype) w = ((), ?w1)" by (simp add: countQuery_def)
  with 2 have "conserved E b evs ?w1 res w'" by simp
  then show ?case by (rule conserved_Cons [where sent = "[]" and new = ?new]) (simp_all add: q)
next
  case (3 E ev evs)
  then have "conserved E None evs w res w'" by simp
  then show ?case by (rule conserved_Cons [where sent = "[]" and new = "[]"]) simp_all
next
  case (4 E batch ev evs)
  obtain b1 w1 where r: "run_state (runCounter E batch [ev]) w = (b1, w1)" by fastforce
  from runCounter_account [OF r] obtain ms sent where a: "countCh w = ms @ countCh w1"
    "cmds w1 = cmds w @ map (ZINCRBY SetQueryCounts 1) sent"
    "case b1 of None \<Rightarrow> sent = batch @ ms | Some b \<Rightarrow> sent @ b = batch @ ms"
    unfolding accounted_def by blast
  then have "sent @ held_by b1 = batch @ ms" by (cases b1) simp_all
  then have kept: "held_by (Some batch) @ countCh w @ [] = sent @ held_by b1 @ countCh w1"
    using a(1) by (metis append_assoc append_Nil2 option.simps(5))
  from r 4 have "conserved E b1 evs w1 res w'" by simp
  then show ?case using a(2) kept by (rule conserved_Cons) (simp_all add: r)
qed

lemma count_traffic_batch:
  "run_state (count_traffic E b evs) w = (Some b', w') \<Longrightarrow> length (held_by b) < 256 \<Longrightarrow> length b' < 256"
proof (induction E b evs arbitrary: w rule: count_traffic.induct)
  case (4 E batch ev evs)
  obtain b1 w1 where r: "run_state (runCounter E batch [ev]) w = (b1, w1)" by fastforce
  with 4 runCounter_batch [of E batch "[ev]" w] show ?case by (intro 4(1) [of b1 w1]) (auto split: option.splits)
qed (auto split: prod.splits)

lemma count_traffic_ends:
  "run_state (count_traffic E b evs) w = (res, w') \<Longrightarrow> res = None \<longleftrightarrow> b = None \<or> Counter CDone \<in> set evs"
proof (induction E b evs arbitrary: w rule: count_traffic.induct)
  case (4 E batch ev evs)
  obtain b1 w1 where r: "run_state (runCounter E batch [ev]) w = (b1, w1)" by fastforce
  have "b1 = None \<longleftrightarrow> ev = CDone"
    using r by (cases ev) (auto simp: Let_def split: prod.splits option.splits if_splits)
  with r 4 show ?case by auto
qed (auto split: prod.splits)

lemma dueDynamic_filter:
  "dueDynamic E ms nxt t =
     filter (\<lambda>m. parseMember E (Member m) \<noteq> None \<and>
       (case nxt (''dyn|'' @ Member m) of None \<Rightarrow> True | Some due \<Rightarrow> due \<le> t)) ms"
  by (induction ms) (auto split: option.splits)

section \<open>Properties\<close>

text \<open>
  Counting and prefetching agree on names: the ranking member written for a query
  parses back to the lower-cased fully qualified name and the query's type, for every type
  the DNS library can print and read back, even when the name contains the separator.
\<close>

theorem parseMember_countMember:
  assumes "StringToType E (type_string E t) = Some t" and "CHR ''|'' \<notin> set (type_string E t)"
    and "type_string E t \<noteq> []" and "Fqdn E name \<noteq> []"
  shows "parseMember E (countMember E name t) = Some (to_lower (Fqdn E name), t)"
proof -
  have "last_index (countMember E name t) (CHR ''|'') = int (length (to_lower (Fqdn E name)))"
    using last_index_append [OF assms(2)] by (simp add: countMember_def)
  moreover have "to_lower (Fqdn E name) \<noteq> []" using assms(4) by (simp add: to_lower_def)
  ultimately show ?thesis
    using assms(1,3,4) by (simp add: parseMember_def countMember_def Let_def nat_add_distrib)
qed

text \<open>
  A refreshed name comes up again after 80 percent of its lifetime, clamped to between
  one sweep and one hour; so it is refreshed before it lapses as long as its lifetime is
  no shorter than a sweep, and after it has lapsed when the lifetime is shorter.
\<close>

theorem prefetchNextDelay_clamped:
  assumes "0 < ttl" and "4 * ttl < 2 ^ 63" and "0 \<le> sweep" and "sweep \<le> hour"
  shows "prefetchNextDelay ttl sweep = max sweep (min hour (4 * ttl div 5)) \<and>
    (prefetchNextDelay ttl sweep \<le> ttl \<longleftrightarrow> sweep \<le> ttl)"
proof -
  have "wrap64 (ttl * 4) sdiv 5 = 4 * ttl div 5"
    using assms(1,2) by (simp add: wrap64_id in_int64_def sdiv_pos mult.commute)
  then have "prefetchNextDelay ttl sweep = max sweep (min hour (4 * ttl div 5))"
    using assms(1,4) by (auto simp: prefetchNextDelay_def Let_def)
  then show ?thesis using assms(1) by (auto simp: min_le_iff_disj)
qed

text \<open>
  Decay is exponential with the configured half-life: the factor lies in (0, 1], is one
  half after one half-life, and decaying twice is decaying over the sum of the times.
\<close>

theorem decayFactor_exponential:
  assumes "0 < h" and "0 < a" and "0 < b"
  shows "0 < decayFactor h a \<and> decayFactor h a < 1 \<and> decayFactor h h = 1 / 2 \<and>
    decayFactor h (a + b) = decayFactor h a * decayFactor h b"
proof -
  have "(1 / 2 :: real) powr (a / h) < (1 / 2) powr 0"
    using assms by (intro powr_less_mono') simp_all
  moreover have "(1 / 2 :: real) powr (real_of_int (a + b) / h) = (1 / 2) powr (a / h) * (1 / 2) powr (b / h)"
    by (simp add: powr_add [symmetric] add_divide_distrib)
  ultimately show ?thesis using assms by (simp add: decayFactor_def)
qed

text \<open>
  C30: A sweep's decay over Redis multiplies every score by the decay factor, drops the
  members at or under the pruning line, and keeps at most 10000 members; a member it drops
  for the cap is ranked no higher than any it keeps.  Hence every member left scores above
  one half.
\<close>

theorem redis_Decay_correct:
  assumes "redis_zset E zset_at" and "0 < f" and "f < 1"
    and "run_state (redis_Decay E f) w = (res, w')"
  shows "capped (decayed f (zset_at (store w) SetQueryCounts)) (zset_at (store w') SetQueryCounts) \<and>
    card (dom (zset_at (store w') SetQueryCounts)) \<le> 10000 \<and>
    (\<forall>m y. zset_at (store w') SetQueryCounts m = Some y \<longrightarrow> 1 / 2 < y)"
proof -
  have c: "capped (decayed f (zset_at (store w) SetQueryCounts)) (zset_at (store w') SetQueryCounts)"
    using redis_zset.redis_Decay_scores [OF assms(1-3), of w] assms(4) by simp
  moreover have "1 / 2 < y" if "zset_at (store w') SetQueryCounts m = Some y" for m y
    using rank_store.decay_bounds [OF redis_rank_contract [OF assms(1)] assms(2,3), of w m y] assms(4) that
    by (simp add: redisRankStore_def pruneBelowScore_def)
  ultimately show ?thesis by (auto simp: capped_def maxCountMembers_def)
qed

text \<open>
  \<open>Top\<close> returns the ranking's head: distinct members in descending order with their
  scores, all at or above the threshold, at most \<open>n\<close>, and none left out that scores higher
  than one returned.
\<close>

theorem redis_Top_correct:
  assumes "redis_zset E zset_at" and "0 < n"
  shows "\<exists>ms. fst (run_state (redis_Top E n lo) w) = Inr ms \<and>
    best_of (zset_at (store w) SetQueryCounts) n lo ms"
  using rank_store.top_best [OF redis_rank_contract [OF assms(1)] assms(2), of lo w]
  by (simp add: redisRankStore_def)

text \<open>
  C29: Query counts are conserved between the queue and Redis.  Let any number of queries be
  counted while the counter goroutine runs, in any interleaving.  Then every member accepted
  into the queue is written to Redis once and in order, or is one of the fewer than 256 in
  the goroutine's batch, or is still queued; the batch is written when the goroutine ends, but
  what is queued at that moment is not.  A query goes uncounted only if the queue held 4096
  members at some moment of the run.
\<close>

theorem counts_conserved:
  assumes "run_state (count_traffic E (Some []) evs) w = (res, w')"
  shows "\<exists>accepted written. subseq accepted (asked E evs) \<and>
    countCh w @ accepted = written @ (case res of Some b \<Rightarrow> b | None \<Rightarrow> []) @ countCh w' \<and>
    cmds w' = cmds w @ map (ZINCRBY SetQueryCounts 1) written \<and>
    (\<forall>b. res = Some b \<longrightarrow> length b < 256) \<and> (res = None \<longleftrightarrow> Counter CDone \<in> set evs) \<and>
    (accepted = asked E evs \<or>
     (\<exists>evs1 evs2. evs = evs1 @ evs2 \<and> 4096 \<le> length (countCh (snd (run_state (count_traffic E (Some []) evs1) w)))))"
proof -
  have "\<forall>b. res = Some b \<longrightarrow> length b < 256"
    using assms count_traffic_batch [of E "Some []" evs w] by auto
  moreover have "res = None \<longleftrightarrow> Counter CDone \<in> set evs" using count_traffic_ends [OF assms] by simp
  ultimately show ?thesis
    using count_traffic_accounted [OF assms] unfolding conserved_def overflowed_def countQueueSize_def by simp
qed

text \<open>
  A flushed batch raises the score of each of its members by the number of times the
  member occurs in it, and no other score.
\<close>

theorem count_flush_scores:
  assumes "redis_zset E zset_at"
  shows "zset_at (store (snd (run_state (count_flush E batch) w))) SetQueryCounts m =
    (if m \<in> set batch
     then Some ((case zset_at (store w) SetQueryCounts m of None \<Rightarrow> 0 | Some x \<Rightarrow> x) + real (count_list batch m))
     else zset_at (store w) SetQueryCounts m)"
  using redis_zset.count_scores [OF assms, of SetQueryCounts batch w m]
  by (auto simp: count_flush_def split: prod.splits if_splits)

text \<open>
  Counting never delays a query and never overfills the queue: it issues no Redis
  command, changes nothing but the queue, and the queue stays within 4096 members.
\<close>

theorem countQuery_bounded:
  assumes "length (countCh w) \<le> 4096" and "run_state (countQuery E hasCh name qtype) w = (u, w')"
  shows "w'\<lparr>countCh := countCh w\<rparr> = w \<and> length (countCh w') \<le> 4096 \<and>
    (countCh w' = countCh w \<or> countCh w' = countCh w @ [countMember E name qtype])"
  using assms by (auto simp: countQuery_def countQueueSize_def split: if_splits)

text \<open>
  The sweep refreshes exactly the ranked members that parse and are not scheduled for
  later, in ranking order.
\<close>

theorem dueDynamic_correct:
  "dueDynamic E ms nxt t =
     filter (\<lambda>m. parseMember E (Member m) \<noteq> None \<and>
       \<not> (\<exists>due. nxt (''dyn|'' @ Member m) = Some due \<and> t < due)) ms"
  unfolding dueDynamic_filter by (rule filter_cong) (auto split: option.splits)

section \<open>Witnesses\<close>

lemma stub_types [simp]: "type_string stub_env 28 = ''AAAA''" "StringToType stub_env ''AAAA'' = Some 28"
  "Fqdn stub_env ''Ex.Org'' = ''Ex.Org.''"
  by (simp_all add: stub_env_def)

theorem parseMember_countMember_witness:
  "parseMember stub_env (countMember stub_env ''Ex.Org'' 28) = Some (to_lower (Fqdn stub_env ''Ex.Org''), 28)"
  by (rule parseMember_countMember) simp_all

theorem prefetchNextDelay_clamped_witness:
  "prefetchNextDelay (300 * second) (60 * second) = max (60 * second) (min hour (4 * (300 * second) div 5)) \<and>
    (prefetchNextDelay (300 * second) (60 * second) \<le> 300 * second \<longleftrightarrow> 60 * second \<le> 300 * second)"
  by (rule prefetchNextDelay_clamped) (simp_all add: duration_units)

theorem decayFactor_exponential_witness:
  "0 < decayFactor (24 * hour) minute \<and> decayFactor (24 * hour) minute < 1 \<and>
    decayFactor (24 * hour) (24 * hour) = 1 / 2 \<and>
    decayFactor (24 * hour) (minute + hour) = decayFactor (24 * hour) minute * decayFactor (24 * hour) hour"
  by (rule decayFactor_exponential) (simp_all add: duration_units)

definition ranked_world :: "mem world" where
  "ranked_world = start_world\<lparr>store := mem_empty\<lparr>zsets := (\<lambda>_. [(''a.|A'', 3), (''b.|A'', 9 / 10)])\<rparr>,
     countCh := [''a.|A'', ''c.|A'', ''a.|A'']\<rparr>"

theorem redis_Decay_correct_witness:
  "\<exists>w' :: mem world. capped (decayed (1 / 2) (mem_zset (store ranked_world) SetQueryCounts)) (mem_zset (store w') SetQueryCounts) \<and>
    card (dom (mem_zset (store w') SetQueryCounts)) \<le> 10000 \<and>
    (\<forall>m y. mem_zset (store w') SetQueryCounts m = Some y \<longrightarrow> 1 / 2 < y)"
proof -
  let ?R = "run_state (redis_Decay (mem_env stub_env) (1 / 2)) ranked_world"
  have R: "?R = (fst ?R, snd ?R)" by simp
  show ?thesis
    by (intro exI [of _ "snd ?R"], rule redis_Decay_correct [OF mem_zsets.redis_zset_axioms _ _ R]) simp_all
qed

theorem redis_Top_correct_witness:
  "\<exists>ms. fst (run_state (redis_Top (mem_env stub_env) 50 2) ranked_world) = Inr ms \<and>
    best_of (mem_zset (store ranked_world) SetQueryCounts) 50 2 ms"
  by (rule redis_Top_correct [OF mem_zsets.redis_zset_axioms]) simp

theorem counts_conserved_witness:
  "\<exists>accepted written (w' :: mem world). countCh ranked_world @ accepted = written @ countCh w' \<and>
     cmds w' = cmds ranked_world @ map (ZINCRBY SetQueryCounts 1) written"
proof -
  let ?evs = "[Query ''Ex.Org'' 28, Counter CRecv, Query ''Ex.Org'' 1, Counter CTick, Counter CRecv, Counter CDone]"
  obtain res w' where R: "run_state (count_traffic (mem_env stub_env) (Some []) ?evs) ranked_world = (res, w')" by fastforce
  from counts_conserved [OF R] have "res = None" by auto
  with counts_conserved [OF R] show ?thesis by auto
qed

theorem count_flush_scores_witness:
  "mem_zset (store (snd (run_state (count_flush (mem_env stub_env) [''a.|A'', ''a.|A'']) ranked_world))) SetQueryCounts ''a.|A'' =
     Some 5"
  using count_flush_scores [OF mem_zsets.redis_zset_axioms, of stub_env "[''a.|A'', ''a.|A'']" ranked_world "''a.|A''"]
  by (simp add: ranked_world_def mem_zset_def)

theorem countQuery_bounded_witness:
  "let w' = snd (run_state (countQuery (mem_env stub_env) True ''Ex.Org'' 28) ranked_world) in
   w'\<lparr>countCh := countCh ranked_world\<rparr> = ranked_world \<and> length (countCh w') \<le> 4096 \<and>
   (countCh w' = countCh ranked_world \<or>
    countCh w' = countCh ranked_world @ [countMember (mem_env stub_env) ''Ex.Org'' 28])"
proof -
  let ?R = "run_state (countQuery (mem_env stub_env) True ''Ex.Org'' 28) ranked_world"
  have R: "?R = (fst ?R, snd ?R)" by (rule prod.collapse [symmetric])
  have "length (countCh ranked_world) \<le> 4096" by (simp add: ranked_world_def)
  from countQuery_bounded [OF this R] show ?thesis by (simp add: Let_def)
qed

end
