(* ===== verification/Server.thy ===== *)
theory Server
  imports Resolver Stats
begin

text \<open>
  \<open>internal/server/server.go\<close>: the request workers, the request handler with its cache-first
  path, caching and broadcasting, and the prefetch sweeps.  A goroutine that the handler
  starts for one Redis command is returned as that command; \<open>process\<close> runs it before or
  after the acknowledgement.
\<close>

section \<open>State and construction\<close>

record 'r Server =
  s_res :: "'r Resolver"
  s_group :: string
  s_consumer :: string
  s_cacheTTL :: duration
  s_negTTL :: duration
  s_respMax :: int
  s_workers :: int
  s_prefetch :: duration
  s_topN :: int
  s_halfLife :: duration
  s_rank :: "'r rankStore option"
  s_hasCountCh :: bool
  s_resolve :: "string \<Rightarrow> u16 \<Rightarrow> ('r, string + dns_msg) io"

definition Server_New ::
  "'r env \<Rightarrow> 'r Resolver \<Rightarrow> string \<Rightarrow> string \<Rightarrow> duration \<Rightarrow> duration \<Rightarrow> int \<Rightarrow> int \<Rightarrow> duration \<Rightarrow> int \<Rightarrow>
   duration \<Rightarrow> 'r Server" where
  "Server_New E res grp consumer cacheTTL negTTL respMax workers prefetch topN halfLife =
     (let respMax = (if respMax \<le> 0 then 1000 else respMax);
          workers = (if workers \<le> 0 then 1 else workers)
      in \<lparr>s_res = res, s_group = grp, s_consumer = consumer, s_cacheTTL = cacheTTL,
          s_negTTL = negTTL, s_respMax = respMax, s_workers = workers, s_prefetch = prefetch,
          s_topN = topN, s_halfLife = halfLife, s_rank = Some (redisRankStore E),
          s_hasCountCh = True, s_resolve = Resolve E res\<rparr>)"

definition ensureGroup :: "'r env \<Rightarrow> 'r Server \<Rightarrow> ('r, string option) io" where
  "ensureGroup E s =
     do { rep \<leftarrow> call E (XGROUP_CREATE_MKSTREAM StreamRequests (s_group s) ''0'');
          ret (case reply_err rep of
                 Some err \<Rightarrow> if contains err ''BUSYGROUP'' then None else Some err
               | None \<Rightarrow> None) }"

section \<open>Caching and broadcasting\<close>

definition cache_lifetime :: "'r Server \<Rightarrow> dns_msg \<Rightarrow> duration" where
  "cache_lifetime s answer =
     (let ttl = (if m_rcode answer = RcodeNameError then s_negTTL s else s_cacheTTL s) in
      if ttl \<le> 0 then 0
      else
        (let mn = MinTTL answer in
         if mn > 0 \<and> dur_mul (uint mn) second < ttl then dur_mul (uint mn) second else ttl))"

definition cache ::
  "'r env \<Rightarrow> 'r Server \<Rightarrow> string \<Rightarrow> u16 \<Rightarrow> bytes \<Rightarrow> dns_msg \<Rightarrow> ('r, duration) io" where
  "cache E s name qtype wire answer =
     (let ttl = (if m_rcode answer = RcodeNameError then s_negTTL s else s_cacheTTL s) in
      if ttl \<le> 0 then ret 0
      else
        do { _ \<leftarrow> call E (SET (CacheKey name qtype) wire (cache_lifetime s answer));
             ret (cache_lifetime s answer) })"

definition publish ::
  "'r env \<Rightarrow> string \<Rightarrow> u16 \<Rightarrow> bytes \<Rightarrow> dns_msg \<Rightarrow> int \<Rightarrow> ('r, unit) io" where
  "publish E name qtype wire answer resolvedAt =
     do { _ \<leftarrow> call E (PUBLISH ChannelUpdates (marshal_update
                \<lparr>upd_name = name, upd_type = qtype, upd_rcode = m_rcode answer,
                 upd_resolved_at = resolvedAt, upd_wire = wire\<rparr>));
          ret () }"

section \<open>Handling a request\<close>

definition response_cmd :: "'r Server \<Rightarrow> response \<Rightarrow> redis_cmd" where
  "response_cmd s resp = XADD StreamResponses (Some (s_respMax s)) (marshal_response resp)"

text \<open>The upstream part of the handler: resolve, pack, cache, broadcast, and fill the response in.\<close>

definition resolve_fresh :: "'r env \<Rightarrow> 'r Server \<Rightarrow> request \<Rightarrow> response \<Rightarrow> ('r, response) io" where
  "resolve_fresh E s req resp =
     do { result \<leftarrow> Resolve E (s_res s) (req_name req) (req_type req);
          case result of
            Inl err \<Rightarrow> ret (resp\<lparr>rsp_err := err\<rparr>)
          | Inr answer \<Rightarrow>
              (case Pack E answer of
                 Inl perr \<Rightarrow> ret (resp\<lparr>rsp_err := perr\<rparr>)
               | Inr wire \<Rightarrow>
                   do { t \<leftarrow> now E;
                        ttl \<leftarrow> cache E s (req_name req) (req_type req) wire answer;
                        _ \<leftarrow> publish E (req_name req) (req_type req) wire answer t;
                        ret (resp\<lparr>rsp_wire := wire, rsp_rcode := m_rcode answer, rsp_resolved_at := t\<rparr>) }) }"

text \<open>
  The handler after the request is decoded and counted.  It returns the command handed to
  the fire-and-forget goroutine, if it starts one.
\<close>

definition cache_hit :: "redis_reply \<Rightarrow> bytes option" where
  "cache_hit rep = (case rep of RBytes wire \<Rightarrow> if length wire > 0 then Some wire else None | _ \<Rightarrow> None)"

definition answer_request :: "'r env \<Rightarrow> 'r Server \<Rightarrow> request \<Rightarrow> ('r, redis_cmd list) io" where
  "answer_request E s req =
     (let resp = zero_response\<lparr>rsp_id := req_id req, rsp_name := req_name req, rsp_type := req_type req\<rparr> in
      do { start \<leftarrow> now E;
           rep \<leftarrow> call E (GET (CacheKey (req_name req) (req_type req)));
           case cache_hit rep of
             Some wire \<Rightarrow>
               do { t \<leftarrow> now E;
                    _ \<leftarrow> call E (response_cmd s
                          (resp\<lparr>rsp_wire := wire,
                                rsp_rcode := (case Unpack E wire of Inr m \<Rightarrow> m_rcode m | Inl err \<Rightarrow> 0),
                                rsp_resolved_at := t\<rparr>));
                    ret [] }
           | None \<Rightarrow>
               do { resp \<leftarrow> resolve_fresh E s req resp; ret [response_cmd s resp] } })"

definition handle :: "'r env \<Rightarrow> 'r Server \<Rightarrow> xmessage \<Rightarrow> ('r, redis_cmd list) io" where
  "handle E s msg =
     (case map_of (xm_values msg) ''data'' of
        None \<Rightarrow> ret []
      | Some data \<Rightarrow>
          (case unmarshal_request data of
             None \<Rightarrow> ret []
           | Some req \<Rightarrow>
               do { _ \<leftarrow> countQuery E (s_hasCountCh s) (req_name req) (req_type req);
                    answer_request E s req }))"

text \<open>The body of the goroutine started for a message; \<open>late\<close> delays the response past the ack.\<close>

definition process :: "'r env \<Rightarrow> 'r Server \<Rightarrow> bool \<Rightarrow> xmessage \<Rightarrow> ('r, unit) io" where
  "process E s late msg =
     do { spawned \<leftarrow> handle E s msg;
          _ \<leftarrow> (if late then ret None else pipeline E spawned);
          _ \<leftarrow> call E (XACK StreamRequests (s_group s) (xm_id msg));
          _ \<leftarrow> (if late then pipeline E spawned else ret None);
          ret () }"

section \<open>Workers\<close>

text \<open>
  One round of a worker, given what \<open>ctx.Err\<close> shows at its two readings: it returns, or
  goes on with a new backoff after the given sleeps, having dispatched messages.
\<close>

datatype worker_out =
    WReturn
  | WNext (w_backoff: duration) (w_sleep: "duration option") (w_messages: "xmessage list")

definition worker_round ::
  "'r env \<Rightarrow> 'r Server \<Rightarrow> string \<Rightarrow> duration \<Rightarrow> bool \<times> bool \<Rightarrow> ('r, worker_out) io" where
  "worker_round E s consumer backoff ended =
     (if fst ended then ret WReturn
      else
        do { rep \<leftarrow> call E (XREADGROUP (s_group s) consumer StreamRequests);
             case reply_err rep of
               Some err \<Rightarrow>
                 if snd ended then ret WReturn
                 else if rep = RNil then ret (WNext backoff None [])
                 else
                   do { _ \<leftarrow> (if contains err ''NOGROUP'' then ensureGroup E s else ret None);
                        ret (WNext (if backoff < 5 * second then dur_mul backoff 2 else backoff)
                               (Some backoff) []) }
             | None \<Rightarrow>
                 ret (WNext second None (case rep of RMessages ms \<Rightarrow> ms | _ \<Rightarrow> [])) })"

fun worker ::
  "'r env \<Rightarrow> 'r Server \<Rightarrow> string \<Rightarrow> duration \<Rightarrow> (bool \<times> bool) list \<Rightarrow> ('r, duration list \<times> xmessage list) io"
where
  "worker E s consumer backoff [] = ret ([], [])"
| "worker E s consumer backoff (ended # rest) =
     do { out \<leftarrow> worker_round E s consumer backoff ended;
          case out of
            WReturn \<Rightarrow> ret ([], [])
          | WNext b sleep ms \<Rightarrow>
              do { (sleeps, more) \<leftarrow> worker E s consumer b rest;
                   ret ((case sleep of None \<Rightarrow> sleeps | Some d \<Rightarrow> d # sleeps), ms @ more) } }"

section \<open>Prefetching\<close>

definition sweep_domain ::
  "'r env \<Rightarrow> 'r Server \<Rightarrow> (string \<rightharpoonup> timestamp) \<Rightarrow> string \<times> string \<Rightarrow> ('r, string \<rightharpoonup> timestamp) io" where
  "sweep_domain E s nxt entry =
     (let (fqdn, intervalStr) = entry;
          interval = (case parse_int (trim_space intervalStr) of
                        Some i \<Rightarrow> if i \<le> 0 then s_prefetch s sdiv second else i
                      | None \<Rightarrow> s_prefetch s sdiv second);
          name = to_lower (Fqdn E fqdn)
      in do { later \<leftarrow> (case nxt name of
                           Some t \<Rightarrow> do { u \<leftarrow> now E; ret (u < t) }
                         | None \<Rightarrow> ret False);
              if later then ret nxt
              else
                do { result \<leftarrow> s_resolve s name TypeA;
                     case result of
                       Inl err \<Rightarrow> ret nxt
                     | Inr answer \<Rightarrow>
                         (case Pack E answer of
                            Inl err \<Rightarrow> ret nxt
                          | Inr wire \<Rightarrow>
                              do { _ \<leftarrow> cache E s name TypeA wire answer;
                                   t \<leftarrow> now E;
                                   _ \<leftarrow> publish E name TypeA wire answer t;
                                   u \<leftarrow> now E;
                                   ret (nxt(name \<mapsto> u + dur_mul interval second)) }) } })"

definition refresh_member ::
  "'r env \<Rightarrow> 'r Server \<Rightarrow> (string \<rightharpoonup> timestamp) \<Rightarrow> scoredMember \<Rightarrow> ('r, string \<rightharpoonup> timestamp) io" where
  "refresh_member E s nxt m =
     (let (name, qtype) = (case parseMember E (Member m) of Some nt \<Rightarrow> nt | None \<Rightarrow> ([], 0));
          key = ''dyn|'' @ Member m
      in do { result \<leftarrow> s_resolve s name qtype;
              case result of
                Inl err \<Rightarrow> do { u \<leftarrow> now E; ret (nxt(key \<mapsto> u + s_prefetch s)) }
              | Inr answer \<Rightarrow>
                  (case Pack E answer of
                     Inl err \<Rightarrow> ret nxt
                   | Inr wire \<Rightarrow>
                       do { ttl \<leftarrow> cache E s name qtype wire answer;
                            t \<leftarrow> now E;
                            _ \<leftarrow> publish E name qtype wire answer t;
                            u \<leftarrow> now E;
                            ret (nxt(key \<mapsto> u + prefetchNextDelay ttl (s_prefetch s))) }) })"

definition prefetchDynamic ::
  "'r env \<Rightarrow> 'r Server \<Rightarrow> (string \<rightharpoonup> timestamp) \<Rightarrow> ('r, string \<rightharpoonup> timestamp) io" where
  "prefetchDynamic E s nxt =
     (if s_topN s \<le> 0 then ret nxt
      else
        (case s_rank s of
           None \<Rightarrow> ret nxt
         | Some rank \<Rightarrow>
             do { ranked \<leftarrow> Top rank (s_topN s) minPrefetchScore;
                  case ranked of
                    Inl err \<Rightarrow> ret nxt
                  | Inr ms \<Rightarrow>
                      do { t \<leftarrow> now E;
                           foldM (refresh_member E s) nxt (dueDynamic E ms nxt t) } }))"

definition prefetchSweep ::
  "'r env \<Rightarrow> 'r Server \<Rightarrow> (string \<rightharpoonup> timestamp) \<Rightarrow> ('r, string \<rightharpoonup> timestamp) io" where
  "prefetchSweep E s nxt =
     do { rep \<leftarrow> call E (HGETALL HashHotDomains);
          case rep of
            RHash domains \<Rightarrow>
              do { nxt \<leftarrow> foldM (sweep_domain E s) nxt domains;
                   nxt \<leftarrow> prefetchDynamic E s nxt;
                   case s_rank s of
                     None \<Rightarrow> ret nxt
                   | Some rank \<Rightarrow>
                       if s_halfLife s > 0
                       then do { _ \<leftarrow> Decay rank (decayFactor (s_halfLife s) (s_prefetch s)); ret nxt }
                       else ret nxt }
          | _ \<Rightarrow> ret nxt }"

text \<open>The prefetch goroutine over a list of events: \<open>True\<close> is a tick, \<open>False\<close> the context's end.\<close>

fun runPrefetch_loop ::
  "'r env \<Rightarrow> 'r Server \<Rightarrow> (string \<rightharpoonup> timestamp) \<Rightarrow> bool list \<Rightarrow> ('r, string \<rightharpoonup> timestamp) io" where
  "runPrefetch_loop E s nxt [] = ret nxt"
| "runPrefetch_loop E s nxt (False # evs) = ret nxt"
| "runPrefetch_loop E s nxt (True # evs) =
     do { nxt \<leftarrow> prefetchSweep E s nxt; runPrefetch_loop E s nxt evs }"

definition runPrefetch :: "'r env \<Rightarrow> 'r Server \<Rightarrow> bool list \<Rightarrow> ('r, string \<rightharpoonup> timestamp) io" where
  "runPrefetch E s evs = runPrefetch_loop E s Map.empty evs"

section \<open>Running\<close>

datatype goroutine = GCounter | GPrefetch | GWorker string

text \<open>The goroutines \<open>Run\<close> starts, or the error with which it refuses to start.\<close>

definition Run :: "'r env \<Rightarrow> 'r Server \<Rightarrow> ('r, string + goroutine list) io" where
  "Run E s =
     do { err \<leftarrow> ensureGroup E s;
          case err of
            Some e \<Rightarrow> ret (Inl e)
          | None \<Rightarrow>
              ret (Inr ([GCounter] @ (if s_prefetch s > 0 then [GPrefetch] else []) @
                map (\<lambda>i. GWorker (s_consumer s @ ''-'' @ itoa i)) [0..s_workers s - 1])) }"

section \<open>Lemmas: which commands are issued\<close>

text \<open>Every command but responses, acknowledgements and count increments.\<close>

fun plain :: "redis_cmd \<Rightarrow> bool" where
  "plain (XADD k l p) = False"
| "plain (XACK k g i) = False"
| "plain (ZINCRBY k d m) = False"
| "plain _ = True"

lemma pref_cmd_plain: "pref_cmd c \<Longrightarrow> plain c"
  by (auto simp: pref_cmd_def)

lemma emits_Resolve_plain: "redis_backed E r \<Longrightarrow> emits plain (Resolve E r name qtype)"
  using emits_Resolve pref_cmd_plain by (rule emits_mono)

lemma emits_cache [emits_rules]:
  "P (SET (CacheKey name qtype) wire (cache_lifetime s answer)) \<Longrightarrow> emits P (cache E s name qtype wire answer)"
  unfolding cache_def by (intro emits_rules)

lemma emits_publish [emits_rules]:
  "P (PUBLISH ChannelUpdates (marshal_update
      \<lparr>upd_name = name, upd_type = qtype, upd_rcode = m_rcode answer,
       upd_resolved_at = t, upd_wire = wire\<rparr>)) \<Longrightarrow>
   emits P (publish E name qtype wire answer t)"
  unfolding publish_def by (intro emits_rules)

lemma emits_resolve_fresh:
  "redis_backed E (s_res s) \<Longrightarrow> emits plain (resolve_fresh E s req resp)"
  unfolding resolve_fresh_def by (intro emits_rules emits_Resolve_plain) simp_all

lemma emits_sweep_domain:
  assumes "\<And>name. emits P (s_resolve s name TypeA)" "\<And>k v d. P (SET k v d)" "\<And>k v. P (PUBLISH k v)"
  shows "emits P (sweep_domain E s nxt entry)"
  unfolding sweep_domain_def by (intro emits_rules assms)

lemma emits_refresh_member:
  assumes "\<And>name qtype. emits P (s_resolve s name qtype)"
    and "\<And>name qtype v d. parseMember E (Member m) = Some (name, qtype) \<Longrightarrow> P (SET (CacheKey name qtype) v d)"
    and "\<And>name qtype rc t v. parseMember E (Member m) = Some (name, qtype) \<Longrightarrow>
      P (PUBLISH ChannelUpdates (marshal_update
        \<lparr>upd_name = name, upd_type = qtype, upd_rcode = rc, upd_resolved_at = t, upd_wire = v\<rparr>))"
    and "parseMember E (Member m) \<noteq> None"
  shows "emits P (refresh_member E s nxt m)"
proof -
  from assms(4) obtain name qtype where p: "parseMember E (Member m) = Some (name, qtype)" by auto
  show ?thesis
    unfolding refresh_member_def p option.case Let_def prod.case
    by (intro emits_rules assms(1) assms(2) [OF p] assms(3) [OF p])
qed

lemma dueDynamic_parses: "m \<in> set (dueDynamic E ms nxt t) \<Longrightarrow> parseMember E (Member m) \<noteq> None \<and> m \<in> set ms"
  by (simp add: dueDynamic_filter)

lemma emits_redis_rank [emits_rules]:
  "P (ZREVRANGEBYSCORE SetQueryCounts lo n) \<Longrightarrow> emits P (redis_Top E n lo)"
  "emits plain (redis_Decay E f)"
  unfolding redis_Top_def redis_Decay_def by (intro emits_rules; simp)+

lemma Server_New_fields [simp]:
  "s_res (Server_New E r g c ct nt rm wk pf tn hl) = r"
  "s_resolve (Server_New E r g c ct nt rm wk pf tn hl) = Resolve E r"
  "s_rank (Server_New E r g c ct nt rm wk pf tn hl) = Some (redisRankStore E)"
  by (simp_all add: Server_New_def Let_def)

lemma emits_prefetchDynamic_plain:
  assumes "s_rank s = Some (redisRankStore E)" "s_resolve s = Resolve E r" "redis_backed E r"
  shows "emits plain (prefetchDynamic E s nxt)"
  unfolding prefetchDynamic_def assms(1) option.case redisRankStore_def rankStore.simps
  by (intro emits_rules emits_foldM_set emits_refresh_member)
     (simp_all add: assms emits_Resolve_plain dueDynamic_parses)

lemma emits_prefetchSweep:
  assumes "s_rank s = Some (redisRankStore E)" "s_resolve s = Resolve E r" "redis_backed E r"
  shows "emits plain (prefetchSweep E s nxt)"
  unfolding prefetchSweep_def assms(1) option.case
  by (intro emits_rules emits_prefetchDynamic_plain [OF assms] emits_sweep_domain)
     (simp_all add: assms emits_Resolve_plain redisRankStore_def emits_rules)

section \<open>Lemmas: the answer to a request\<close>

definition answers :: "request \<Rightarrow> response \<Rightarrow> bool" where
  "answers req r \<longleftrightarrow> rsp_id r = req_id req \<and> rsp_name r = req_name req \<and> rsp_type r = req_type req"

lemma resolve_fresh_answers:
  assumes "run_state (resolve_fresh E s req resp) w = (r, w')" "answers req resp"
  shows "answers req r"
  using assms
  by (auto simp: resolve_fresh_def answers_def split: prod.splits sum.splits)

lemma answer_request_shape:
  assumes "redis_backed E (s_res s)" and "run_state (answer_request E s req) w = (spawned, w')"
  obtains r cs where "answers req r" "list_all plain cs" "countCh w' = countCh w"
    "spawned = [] \<and> cmds w' = cmds w @ cs @ [response_cmd s r] \<or>
     spawned = [response_cmd s r] \<and> cmds w' = cmds w @ cs"
proof -
  let ?get = "GET (CacheKey (req_name req) (req_type req))"
  let ?resp = "zero_response\<lparr>rsp_id := req_id req, rsp_name := req_name req, rsp_type := req_type req\<rparr>"
  let ?w0 = "w\<lparr>ticks := Suc (ticks w)\<rparr>"
  obtain rep w1 where get: "run_state (call E ?get) ?w0 = (rep, w1)" by fastforce
  have w1: "cmds w1 = cmds w @ [?get]" "countCh w1 = countCh w"
    using call_snd(2,3) [of E ?get ?w0] get by simp_all
  show thesis
  proof (cases "cache_hit rep")
    case (Some wire)
    let ?r = "?resp\<lparr>rsp_wire := wire, rsp_rcode := (case Unpack E wire of Inr m \<Rightarrow> m_rcode m | Inl err \<Rightarrow> 0),
        rsp_resolved_at := clock E (ticks w1)\<rparr>"
    let ?w2 = "w1\<lparr>ticks := Suc (ticks w1)\<rparr>"
    have "spawned = []" "w' = snd (run_state (call E (response_cmd s ?r)) ?w2)"
      using assms(2) get Some by (auto simp: answer_request_def Let_def split: prod.splits)
    with w1 call_snd(2,3) [of E "response_cmd s ?r" ?w2] show ?thesis
      by (intro that [of ?r "[?get]"]) (simp_all add: answers_def)
  next
    case None
    obtain r w2 where f: "run_state (resolve_fresh E s req ?resp) w1 = (r, w2)" by fastforce
    with assms(2) get None have "spawned = [response_cmd s r]" "w' = w2"
      by (auto simp: answer_request_def Let_def)
    moreover obtain cs where "cmds w2 = cmds w1 @ cs" "list_all plain cs" "countCh w2 = countCh w1"
      using emitsE [OF emits_resolve_fresh [OF assms(1)] f] by metis
    moreover have "answers req r" using resolve_fresh_answers [OF f] by (simp add: answers_def)
    ultimately show ?thesis using w1 by (intro that [of r "?get # cs"]) simp_all
  qed
qed

section \<open>Lemmas: the cache\<close>

lemma cache_lifetime_bounds:
  assumes "cap = (if m_rcode answer = RcodeNameError then s_negTTL s else s_cacheTTL s)"
  shows "cap \<le> 0 \<Longrightarrow> cache_lifetime s answer = 0"
    and "0 < cap \<Longrightarrow> 0 < cache_lifetime s answer \<and> cache_lifetime s answer \<le> cap"
    and "t \<in> set (candidate_ttls answer) \<Longrightarrow> 0 < t \<Longrightarrow> cache_lifetime s answer \<le> uint t * second"
proof -
  let ?mn = "MinTTL answer"
  have mn: "?mn = least_positive (candidate_ttls answer)"
    by (simp add: MinTTL_fold foldl_consider_zero)
  have L: "cache_lifetime s answer =
      (if cap \<le> 0 then 0 else if ?mn > 0 \<and> uint ?mn * second < cap then uint ?mn * second else cap)"
    unfolding assms by (simp add: cache_lifetime_def Let_def seconds_u32)
  show "cap \<le> 0 \<Longrightarrow> cache_lifetime s answer = 0" by (simp add: L)
  show "0 < cap \<Longrightarrow> 0 < cache_lifetime s answer \<and> cache_lifetime s answer \<le> cap"
    by (auto simp: L uint_pos second_def)
  assume t: "t \<in> set (candidate_ttls answer)" "0 < t"
  with least_positive_facts [of "candidate_ttls answer"] have le: "0 < ?mn" "?mn \<le> t"
    unfolding mn by (auto simp: word_gt_0)
  then have "uint ?mn * second \<le> uint t * second" by (simp add: word_le_def second_def)
  moreover have "0 \<le> uint t * second" by (simp add: second_def)
  ultimately show "cache_lifetime s answer \<le> uint t * second" using le(1) by (auto simp: L)
qed

context redis_strings
begin

text \<open>Commands that do not touch a key leave the string at it alone.\<close>

lemma pipeline_str:
  assumes "mono (clock E)" "list_all (\<lambda>c. \<not> touches c k) cs" "clock E (ticks (snd (run_state (pipeline E cs) w))) \<le> t"
  shows "str_at (store (snd (run_state (pipeline E cs) w))) t k = str_at (store w) t k"
  using assms(2,3)
proof (induction cs arbitrary: w)
  case (Cons c cs)
  let ?w1 = "snd (run_state (call E c) w)"
  have tk: "ticks ?w1 = Suc (ticks w)" by (simp split: prod.splits)
  have "ticks v \<le> ticks (snd (run_state (pipeline E cs) v))" for v
    by (rule emitsE [OF emits_pipeline [where P = "\<lambda>_. True" and E = E and cs = cs], of v])
       (auto simp: list.pred_True intro: prod.collapse [symmetric])
  with tk have "ticks w \<le> ticks (snd (run_state (pipeline E (c # cs)) w))"
    unfolding pipeline_snd by (metis Suc_leD le_trans order_refl)
  then have now: "clock E (ticks w) \<le> t"
    using Cons.prems(2) monoD [OF assms(1)] order_trans by blast
  have "str_at (store (snd (run_state (pipeline E cs) ?w1))) t k = str_at (store ?w1) t k"
    using Cons.prems by (intro Cons.IH) (simp_all add: pipeline_snd del: run_call pipeline.simps)
  moreover have "str_at (store ?w1) t k = str_at (store w) t k"
    unfolding call_snd(1) using Cons.prems(1) now by (intro strings_frame) simp_all
  ultimately show ?case unfolding pipeline_snd by simp
qed simp

lemma cached_until:
  assumes "0 < d" "clock E (ticks w) \<le> t"
  shows "str_at (store (snd (run_state (call E (SET k v d)) w))) t k =
    (if t < clock E (ticks w) + d then Some v else None)"
  unfolding call_snd(1) by (rule set_value [OF assms])

lemma answer_request_cached:
  assumes "str_at (store w) (clock E (Suc (ticks w))) (CacheKey (req_name req) (req_type req)) = Some wire"
    and "wire \<noteq> []" and "run_state (answer_request E s req) w = (spawned, w')"
  shows "\<exists>r. answers req r \<and> rsp_wire r = wire \<and> rsp_err r = [] \<and> spawned = [] \<and>
    cmds w' = cmds w @ [GET (CacheKey (req_name req) (req_type req)), response_cmd s r]"
proof -
  let ?get = "GET (CacheKey (req_name req) (req_type req))"
  let ?resp = "zero_response\<lparr>rsp_id := req_id req, rsp_name := req_name req, rsp_type := req_type req\<rparr>"
  let ?w0 = "w\<lparr>ticks := Suc (ticks w)\<rparr>"
  obtain rep w1 where get: "run_state (call E ?get) ?w0 = (rep, w1)" by fastforce
  have "rep = RBytes wire"
    using get get_reply [of "clock E (Suc (ticks w))" "CacheKey (req_name req) (req_type req)" "store w"] assms(1)
    by (auto split: prod.splits)
  then have hit: "cache_hit rep = Some wire" using assms(2) by (simp add: cache_hit_def)
  have w1: "cmds w1 = cmds w @ [?get]" using call_snd(2) [of E ?get ?w0] get by simp
  let ?r = "?resp\<lparr>rsp_wire := wire, rsp_rcode := (case Unpack E wire of Inr m \<Rightarrow> m_rcode m | Inl err \<Rightarrow> 0),
      rsp_resolved_at := clock E (ticks w1)\<rparr>"
  let ?w2 = "w1\<lparr>ticks := Suc (ticks w1)\<rparr>"
  have "spawned = []" "w' = snd (run_state (call E (response_cmd s ?r)) ?w2)"
    using assms(3) get hit by (auto simp: answer_request_def Let_def split: prod.splits)
  with w1 call_snd(2) [of E "response_cmd s ?r" ?w2] show ?thesis
    by (intro exI [of _ ?r]) (simp add: answers_def zero_response_def)
qed

lemma resolve_fresh_caches:
  assumes "mono (clock E)"
    and R: "run_state (Resolve E (s_res s) (req_name req) (req_type req)) w = (Inr answer, v)"
    and P: "Pack E answer = Inr wire" and pos: "0 < cache_lifetime s answer"
    and run: "run_state (resolve_fresh E s req resp) w = (r, w')"
  shows "rsp_wire r = wire \<and> rsp_rcode r = m_rcode answer \<and>
    (\<forall>t \<ge> clock E (ticks w'). str_at (store w') t (CacheKey (req_name req) (req_type req)) =
       (if t < clock E (Suc (ticks v)) + cache_lifetime s answer then Some wire else None))"
proof -
  let ?k = "CacheKey (req_name req) (req_type req)" and ?L = "cache_lifetime s answer"
  let ?v1 = "v\<lparr>ticks := Suc (ticks v)\<rparr>"
  let ?v2 = "snd (run_state (call E (SET ?k wire ?L)) ?v1)"
  let ?pub = "PUBLISH ChannelUpdates (marshal_update
      \<lparr>upd_name = req_name req, upd_type = req_type req, upd_rcode = m_rcode answer,
       upd_resolved_at = clock E (ticks v), upd_wire = wire\<rparr>)"
  let ?v3 = "snd (run_state (call E ?pub) ?v2)"
  have cap: "\<not> (if m_rcode answer = RcodeNameError then s_negTTL s else s_cacheTTL s) \<le> 0"
    using pos cache_lifetime_bounds(1) [OF refl, of answer s] by linarith
  have cache: "run_state (cache E s (req_name req) (req_type req) wire answer) u =
      (?L, snd (run_state (call E (SET ?k wire ?L)) u))" for u
    using cap by (simp add: cache_def split: prod.splits)
  have pub: "run_state (publish E (req_name req) (req_type req) wire answer t) u =
      ((), snd (run_state (call E (PUBLISH ChannelUpdates (marshal_update
        \<lparr>upd_name = req_name req, upd_type = req_type req, upd_rcode = m_rcode answer,
         upd_resolved_at = t, upd_wire = wire\<rparr>))) u))" for t u
    by (simp add: publish_def split: prod.splits)
  have out: "r = resp\<lparr>rsp_wire := wire, rsp_rcode := m_rcode answer, rsp_resolved_at := clock E (ticks v)\<rparr>"
    "w' = ?v3"
    using run R P by (simp_all add: resolve_fresh_def cache pub del: run_call)
  have tk: "ticks w' = Suc (Suc (Suc (ticks v)))" unfolding out by (simp split: prod.splits)
  have "str_at (store w') t ?k = (if t < clock E (Suc (ticks v)) + ?L then Some wire else None)"
    if t: "clock E (ticks w') \<le> t" for t
  proof -
    have "ticks ?v2 = Suc (Suc (ticks v))" by (simp split: prod.splits)
    then have "clock E (ticks ?v2) \<le> clock E (ticks w')" "clock E (Suc (ticks v)) \<le> clock E (ticks w')"
      using tk by (simp_all add: monoD [OF assms(1)])
    with t have le: "clock E (Suc (ticks v)) \<le> t" "clock E (ticks ?v2) \<le> t" by simp_all
    have "str_at (store ?v3) t ?k = str_at (store ?v2) t ?k"
      unfolding call_snd(1) [of E ?pub] using le(2) by (intro strings_frame) simp_all
    also have "\<dots> = (if t < clock E (Suc (ticks v)) + ?L then Some wire else None)"
      using cached_until [OF pos, of ?v1 t ?k wire] le(1) by (simp del: run_call)
    finally show ?thesis unfolding out(2) .
  qed
  with out(1) show ?thesis by simp
qed

end

section \<open>Lemmas: workers\<close>

lemma worker_round_backoff:
  assumes "run_state (worker_round E s c b ended) w = (WNext b' sl ms, w')"
    and "b \<in> {second, 2 * second, 4 * second, 8 * second}"
  shows "b' \<in> {second, 2 * second, 4 * second, 8 * second} \<and> (sl = None \<or> sl = Some b)"
  using assms
  by (auto simp: worker_round_def dur_mul_def wrap64_id in_int64_def second_def Let_def
      split: if_splits option.splits prod.splits)

lemma worker_sleeps:
  assumes "run_state (worker E s c b evs) w = ((sleeps, ms), w')"
    and "b \<in> {second, 2 * second, 4 * second, 8 * second}"
  shows "set sleeps \<subseteq> {second, 2 * second, 4 * second, 8 * second}"
  using assms
proof (induction evs arbitrary: b w sleeps ms w')
  case (Cons ended rest)
  obtain out w1 where r: "run_state (worker_round E s c b ended) w = (out, w1)" by fastforce
  show ?case
  proof (cases out)
    case WReturn
    with Cons.prems(1) r show ?thesis by simp
  next
    case (WNext b' sl ms1)
    obtain sl' ms' w2 where k: "run_state (worker E s c b' rest) w1 = ((sl', ms'), w2)"
      by (metis prod.exhaust)
    note B = worker_round_backoff [OF r [unfolded WNext] Cons.prems(2)]
    from Cons.prems(1) r WNext k have "sleeps = (case sl of None \<Rightarrow> sl' | Some d \<Rightarrow> d # sl')" by simp
    with Cons.IH [OF k] B Cons.prems(2) show ?thesis by (auto split: option.splits)
  qed
qed simp

section \<open>Properties\<close>

definition responses :: "redis_cmd list \<Rightarrow> redis_cmd list" where
  "responses cs = filter (\<lambda>c. case c of XADD k l p \<Rightarrow> True | _ \<Rightarrow> False) cs"

definition acks :: "redis_cmd list \<Rightarrow> redis_cmd list" where
  "acks cs = filter (\<lambda>c. case c of XACK k g i \<Rightarrow> True | _ \<Rightarrow> False) cs"

lemma plain_none: "list_all plain cs \<Longrightarrow> responses cs = [] \<and> acks cs = []"
  by (induction cs) (auto simp: responses_def acks_def split: redis_cmd.splits)

lemma responses_append: "responses (xs @ ys) = responses xs @ responses ys" "acks (xs @ ys) = acks xs @ acks ys"
  by (simp_all add: responses_def acks_def)

text \<open>
  C2: Every well-formed request is answered exactly once and acknowledged exactly once:
  whatever Redis, the upstream and the probes do, and whether the response is sent before
  or after the acknowledgement, the handler's goroutine appends one message to the response
  stream, capped at the configured length, which carries the request's ID, name and type.
\<close>

theorem process_answers_once:
  assumes "redis_backed E (s_res s)" and "map_of (xm_values msg) ''data'' = Some data"
    and "unmarshal_request data = Some req"
    and "run_state (process E s late msg) w = (u, w')"
  shows "\<exists>cs r. cmds w' = cmds w @ cs \<and> rsp_id r = req_id req \<and> rsp_name r = req_name req \<and>
    rsp_type r = req_type req \<and>
    responses cs = [XADD StreamResponses (Some (s_respMax s)) (marshal_response r)] \<and>
    acks cs = [XACK StreamRequests (s_group s) (xm_id msg)]"
proof -
  obtain w0 where q: "run_state (countQuery E (s_hasCountCh s) (req_name req) (req_type req)) w = ((), w0)"
    and w0: "cmds w0 = cmds w"
    by (cases "s_hasCountCh s"; cases "length (countCh w) < countQueueSize") (auto simp: countQuery_def)
  obtain spawned w1 where a: "run_state (answer_request E s req) w0 = (spawned, w1)" by fastforce
  obtain r cs where r: "answers req r" "list_all plain cs"
    "spawned = [] \<and> cmds w1 = cmds w0 @ cs @ [response_cmd s r] \<or>
     spawned = [response_cmd s r] \<and> cmds w1 = cmds w0 @ cs"
    using answer_request_shape [OF assms(1) a] by metis
  have h: "run_state (handle E s msg) w = (spawned, w1)"
    using assms(2,3) q a by (simp add: handle_def)
  let ?ack = "XACK StreamRequests (s_group s) (xm_id msg)"
  have "cmds w' = cmds w1 @ (if late then ?ack # spawned else spawned @ [?ack])"
  proof (cases late)
    case True
    let ?w2 = "snd (run_state (call E ?ack) w1)"
    have "w' = snd (run_state (pipeline E spawned) ?w2)"
      using assms(4) h True by (auto simp: process_def split: prod.splits)
    with True pipeline_run [of E spawned ?w2] call_snd(2) [of E ?ack w1] show ?thesis by simp
  next
    case False
    let ?w2 = "snd (run_state (pipeline E spawned) w1)"
    have "w' = snd (run_state (call E ?ack) ?w2)"
      using assms(4) h False by (auto simp: process_def split: prod.splits)
    with False pipeline_run [of E spawned w1] call_snd(2) [of E ?ack ?w2] show ?thesis by simp
  qed
  with r(3) w0 have "\<exists>ds. cmds w' = cmds w @ cs @ ds \<and>
      (ds = [response_cmd s r, ?ack] \<or> ds = [?ack, response_cmd s r])"
    by auto
  then obtain ds where ds: "cmds w' = cmds w @ cs @ ds"
    "ds = [response_cmd s r, ?ack] \<or> ds = [?ack, response_cmd s r]" by blast
  show ?thesis
    using ds r(1) plain_none [OF r(2)]
    by (intro exI [of _ "cs @ ds"] exI [of _ r], simp add: answers_def responses_append)
       (auto simp: responses_def acks_def response_cmd_def)
qed

text \<open>
  A malformed message (no data field, or data that is not a request) costs nothing but
  its acknowledgement: it is neither counted nor answered, and it does not come back.
\<close>

theorem process_malformed:
  assumes "map_of (xm_values msg) ''data'' = None \<or>
    (\<exists>data. map_of (xm_values msg) ''data'' = Some data \<and> unmarshal_request data = None)"
    and "run_state (process E s late msg) w = (u, w')"
  shows "cmds w' = cmds w @ [XACK StreamRequests (s_group s) (xm_id msg)] \<and> countCh w' = countCh w"
proof -
  have "run_state (handle E s msg) w = ([], w)" using assms(1) by (auto simp: handle_def)
  with assms(2) show ?thesis by (auto simp: process_def split: if_splits prod.splits)
qed

text \<open>
  C11: The lifetime under which an answer is cached: zero (nothing is stored) exactly when
  caching of its kind is disabled; otherwise positive, at most the ceiling for its kind
  (the negative one for NXDOMAIN) and at most every positive TTL of the answer.
\<close>

theorem cache_lifetime_correct:
  assumes "cap = (if m_rcode answer = RcodeNameError then s_negTTL s else s_cacheTTL s)"
    and "run_state (cache E s name qtype wire answer) w = (ttl, w')"
  shows "if cap \<le> 0 then ttl = 0 \<and> w' = w
    else 0 < ttl \<and> ttl \<le> cap \<and> (\<forall>t \<in> set (candidate_ttls answer). 0 < t \<longrightarrow> ttl \<le> uint t * second) \<and>
      cmds w' = cmds w @ [SET (CacheKey name qtype) wire ttl]"
proof (cases "cap \<le> 0")
  case True
  with assms show ?thesis by (auto simp: cache_def Let_def)
next
  case False
  then have "ttl = cache_lifetime s answer"
    "w' = snd (run_state (call E (SET (CacheKey name qtype) wire ttl)) w)"
    using assms by (auto simp: cache_def Let_def split: prod.splits)
  with False cache_lifetime_bounds(2,3) [OF assms(1)] call_snd(2) [of E "SET (CacheKey name qtype) wire ttl" w]
  show ?thesis by simp
qed

text \<open>
  C9: Cache first: once a fresh answer has been resolved, and until its cache lifetime has
  passed, every later request for the same name and type is answered from Redis with
  exactly the bytes the upstream answer was packed to: the handler issues one \<open>GET\<close> and one
  response, and nothing else, whatever other commands ran in between.
\<close>

theorem cached_answer_is_replayed:
  assumes "redis_strings E str_at" and "mono (clock E)"
    and "run_state (Resolve E (s_res s) (req_name req) (req_type req)) w = (Inr answer, v)"
    and "Pack E answer = Inr wire" and "wire \<noteq> []" and "0 < cache_lifetime s answer"
    and "run_state (resolve_fresh E s req resp) w = (r, w1)"
    and "list_all (\<lambda>c. \<not> touches c (CacheKey (req_name req) (req_type req))) cs"
    and "w2 = snd (run_state (pipeline E cs) w1)"
    and "clock E (Suc (ticks w2)) < clock E (Suc (ticks v)) + cache_lifetime s answer"
    and "req_name req2 = req_name req" and "req_type req2 = req_type req"
    and "run_state (answer_request E s req2) w2 = (spawned, w3)"
  shows "rsp_wire r = wire \<and> spawned = [] \<and>
    (\<exists>r2. rsp_id r2 = req_id req2 \<and> rsp_wire r2 = wire \<and> rsp_err r2 = [] \<and>
      cmds w3 = cmds w2 @ [GET (CacheKey (req_name req) (req_type req)), response_cmd s r2])"
proof -
  let ?k = "CacheKey (req_name req) (req_type req)" and ?t = "clock E (Suc (ticks w2))"
  note F = redis_strings.resolve_fresh_caches [OF assms(1-4,6,7)]
  have "emits (\<lambda>_. True) (pipeline E cs)" by (rule emits_pipeline) (simp add: list.pred_True)
  then have "ticks w1 \<le> ticks w2"
    using assms(9) by (auto elim!: emitsE [where w = w1] intro: prod.collapse [symmetric])
  then have "ticks w1 \<le> Suc (ticks w2)" by simp
  then have le: "clock E (ticks w1) \<le> ?t" "clock E (ticks w2) \<le> ?t"
    using monoD [OF assms(2)] by auto
  have "str_at (store w2) ?t ?k = str_at (store w1) ?t ?k"
    unfolding assms(9) using assms(9) le(2)
    by (intro redis_strings.pipeline_str [OF assms(1,2,8)]) simp
  also have "\<dots> = Some wire" using F le(1) assms(10) by simp
  finally have "str_at (store w2) ?t (CacheKey (req_name req2) (req_type req2)) = Some wire"
    using assms(11,12) by simp
  from redis_strings.answer_request_cached [OF assms(1) this assms(5,13)] F assms(11,12)
  show ?thesis by (auto simp: answers_def)
qed

text \<open>
  What a fresh response says: either it carries the upstream's or the packer's error and
  no message, and nothing was cached or broadcast; or it carries the packed upstream answer
  with its rcode and no error, and the broadcast update holds the same bytes, rcode and
  version as the response.
\<close>

theorem resolve_fresh_outcome:
  assumes "redis_backed E (s_res s)" and "rsp_wire resp = []" and "rsp_err resp = []"
    and "run_state (resolve_fresh E s req resp) w = (r, w')"
  shows "(\<exists>cs. cmds w' = cmds w @ cs \<and> list_all pref_cmd cs \<and> rsp_wire r = [] \<and>
      ((\<exists>err. fst (run_state (Resolve E (s_res s) (req_name req) (req_type req)) w) = Inl err \<and> rsp_err r = err) \<or>
       (\<exists>answer err. fst (run_state (Resolve E (s_res s) (req_name req) (req_type req)) w) = Inr answer \<and>
          Pack E answer = Inl err \<and> rsp_err r = err))) \<or>
    (\<exists>cs answer. fst (run_state (Resolve E (s_res s) (req_name req) (req_type req)) w) = Inr answer \<and>
      Pack E answer = Inr (rsp_wire r) \<and> rsp_rcode r = m_rcode answer \<and> rsp_err r = [] \<and>
      cmds w' = cmds w @ cs @ [PUBLISH ChannelUpdates (marshal_update
        \<lparr>upd_name = req_name req, upd_type = req_type req, upd_rcode = rsp_rcode r,
         upd_resolved_at = rsp_resolved_at r, upd_wire = rsp_wire r\<rparr>)])"
proof -
  let ?R = "run_state (Resolve E (s_res s) (req_name req) (req_type req)) w"
  obtain res v where R: "?R = (res, v)" by fastforce
  obtain cs where cs: "cmds v = cmds w @ cs" "list_all pref_cmd cs"
    using emitsE [OF emits_Resolve [OF assms(1)] R] by metis
  show ?thesis
  proof (cases res)
    case (Inl err)
    with assms R have "r = resp\<lparr>rsp_err := err\<rparr>" "w' = v" by (auto simp: resolve_fresh_def)
    with Inl R cs assms(2) show ?thesis by simp
  next
    case (Inr answer)
    show ?thesis
    proof (cases "Pack E answer")
      case (Inl err)
      with Inr assms R have "r = resp\<lparr>rsp_err := err\<rparr>" "w' = v" by (auto simp: resolve_fresh_def)
      with Inl Inr R cs assms(2) show ?thesis by simp
    next
      case wire: (Inr wire)
      let ?v1 = "v\<lparr>ticks := Suc (ticks v)\<rparr>"
      obtain ttl v2 where c: "run_state (cache E s (req_name req) (req_type req) wire answer) ?v1 = (ttl, v2)"
        by fastforce
      let ?pub = "PUBLISH ChannelUpdates (marshal_update
        \<lparr>upd_name = req_name req, upd_type = req_type req, upd_rcode = m_rcode answer,
         upd_resolved_at = clock E (ticks v), upd_wire = wire\<rparr>)"
      have "emits (\<lambda>_. True) (cache E s (req_name req) (req_type req) wire answer)"
        by (intro emits_rules) simp
      from emitsE [OF this c] obtain ds where ds: "cmds v2 = cmds v @ ds" by auto
      have out: "r = resp\<lparr>rsp_wire := wire, rsp_rcode := m_rcode answer, rsp_resolved_at := clock E (ticks v)\<rparr>"
        "w' = snd (run_state (call E ?pub) v2)"
        using assms(4) R Inr wire c by (auto simp: resolve_fresh_def publish_def split: prod.splits)
      have "cmds w' = cmds w @ (cs @ ds) @ [?pub]"
        unfolding out(2) call_snd(2) using cs ds by simp
      with out(1) Inr R wire assms(3) show ?thesis
        by (intro disjI2 exI [of _ "cs @ ds"] exI [of _ answer]) simp
    qed
  qed
qed

text \<open>
  A worker that keeps failing to read backs off but never stalls: every pause it makes,
  over any sequence of failures and successes, is one, two, four or eight seconds.
\<close>

theorem worker_backoff_bounded:
  assumes "run_state (worker E s consumer second rounds) w = ((sleeps, ms), w')"
  shows "set sleeps \<subseteq> {second, 2 * second, 4 * second, 8 * second}"
  by (rule worker_sleeps [OF assms]) simp

text \<open>
  A worker whose consumer group has vanished recreates it in the same round and goes on.
\<close>

theorem worker_recreates_group:
  assumes "fst (redis E (clock E (ticks w)) (XREADGROUP (s_group s) consumer StreamRequests) (store w)) = RErr err"
    and "contains err ''NOGROUP''"
    and "run_state (worker_round E s consumer backoff (False, False)) w = (out, w')"
  shows "cmds w' = cmds w @ [XREADGROUP (s_group s) consumer StreamRequests,
      XGROUP_CREATE_MKSTREAM StreamRequests (s_group s) ''0''] \<and> out \<noteq> WReturn"
  using assms
  by (auto simp: worker_round_def ensureGroup_def Let_def split: prod.splits)

text \<open>
  Prefetching never feeds itself: a sweep neither queues nor writes a query count, and
  answers nobody; so the ranking it follows reflects client requests only.
\<close>

theorem prefetch_never_counts:
  assumes "s = Server_New E res grp consumer cacheTTL negTTL respMax workers interval topN halfLife"
    and "redis_backed E res" and "run_state (prefetchSweep E s nxt) w = (nxt', w')"
  shows "countCh w' = countCh w \<and>
    (\<exists>cs. cmds w' = cmds w @ cs \<and> list_all plain cs)"
proof -
  have "emits plain (prefetchSweep E s nxt)"
    using assms(1,2) by (intro emits_prefetchSweep) simp_all
  from emitsE [OF this assms(3)] show ?thesis by metis
qed

definition popular_cmd :: "'r env \<Rightarrow> (string \<rightharpoonup> real) \<Rightarrow> redis_cmd \<Rightarrow> bool" where
  "popular_cmd E sc c \<longleftrightarrow>
     pref_cmd c \<or> (\<exists>lo n. c = ZREVRANGEBYSCORE SetQueryCounts lo n) \<or>
     (\<exists>m x name qtype. sc m = Some x \<and> 2 \<le> x \<and> parseMember E m = Some (name, qtype) \<and>
        ((\<exists>v d. c = SET (CacheKey name qtype) v d) \<or>
         (\<exists>rc t v. c = PUBLISH ChannelUpdates (marshal_update
            \<lparr>upd_name = name, upd_type = qtype, upd_rcode = rc, upd_resolved_at = t, upd_wire = v\<rparr>))))"

text \<open>
  C28: Dynamic prefetch follows demand: every answer it caches or broadcasts is for a name
  and type that the ranking holds with a score of at least two.
\<close>

theorem prefetchDynamic_popular:
  assumes "redis_zset E zset_at" and "redis_backed E res"
    and "s = Server_New E res grp consumer cacheTTL negTTL respMax workers interval topN halfLife"
    and "run_state (prefetchDynamic E s nxt) w = (nxt', w')"
  shows "\<exists>cs. cmds w' = cmds w @ cs \<and>
    list_all (popular_cmd E (zset_at (store w) SetQueryCounts)) cs"
proof (cases "s_topN s \<le> 0")
  case True
  with assms(4) show ?thesis by (auto simp: prefetchDynamic_def)
next
  case False
  let ?sc = "zset_at (store w) SetQueryCounts" and ?P = "popular_cmd E (zset_at (store w) SetQueryCounts)"
  obtain ms v where T: "run_state (redis_Top E (s_topN s) minPrefetchScore) w = (Inr ms, v)"
    and best: "best_of ?sc (s_topN s) minPrefetchScore ms"
    using redis_zset.redis_Top_best [OF assms(1), of "s_topN s" minPrefetchScore w] False
    by (metis linorder_not_le prod.collapse)
  have P1: "emits ?P (redis_Top E (s_topN s) minPrefetchScore)"
    by (intro emits_rules) (auto simp: popular_cmd_def)
  have P2: "emits ?P (do { t \<leftarrow> now E; foldM (refresh_member E s) nxt (dueDynamic E ms nxt t) })"
  proof (intro emits_bind emits_now emits_foldM_set emits_refresh_member)
    fix t a m
    assume m: "m \<in> set (dueDynamic E ms nxt t)"
    then show "parseMember E (Member m) \<noteq> None" by (simp add: dueDynamic_parses)
    have sc: "?sc (Member m) = Some (Score m)" "2 \<le> Score m"
      using dueDynamic_parses [OF m] best by (auto simp: best_of_def minPrefetchScore_def)
    show "?P (SET (CacheKey name qtype) b d)" if "parseMember E (Member m) = Some (name, qtype)" for name qtype b d
      using that sc by (auto simp: popular_cmd_def)
    show "?P (PUBLISH ChannelUpdates (marshal_update
        \<lparr>upd_name = name, upd_type = qtype, upd_rcode = rc, upd_resolved_at = u, upd_wire = b\<rparr>))"
      if "parseMember E (Member m) = Some (name, qtype)" for name qtype rc u b
      using that sc unfolding popular_cmd_def by blast
    show "emits ?P (s_resolve s name qtype)" for name qtype
      using assms(2,3) by (auto simp: popular_cmd_def intro: emits_mono [OF emits_Resolve])
  qed
  have run: "run_state (do { t \<leftarrow> now E; foldM (refresh_member E s) nxt (dueDynamic E ms nxt t) }) v = (nxt', w')"
    using assms(3,4) False T by (simp add: prefetchDynamic_def redisRankStore_def)
  obtain cs where "cmds v = cmds w @ cs" "list_all ?P cs" using emitsE [OF P1 T] by metis
  moreover obtain ds where "cmds w' = cmds v @ ds" "list_all ?P ds" using emitsE [OF P2 run] by metis
  ultimately show ?thesis by (intro exI [of _ "cs @ ds"]) simp
qed

text \<open>
  A ranked name is refreshed at most once per sweep interval: after a refresh attempt
  that got an answer to pack or failed upstream, no sweep that starts within one interval
  finds the name due, and every other name's schedule is untouched.
\<close>

theorem refresh_member_schedules:
  assumes "mono (clock E)" and "s_prefetch s \<le> hour"
    and "\<And>answer. \<exists>wire. Pack E answer = Inr wire"
    and "\<And>name qtype v. ticks v \<le> ticks (snd (run_state (s_resolve s name qtype) v))"
    and "run_state (refresh_member E s nxt m) w = (nxt', w')"
    and "t < clock E (ticks w) + s_prefetch s"
  shows "m \<notin> set (dueDynamic E ms nxt' t) \<and>
    (\<forall>k. k \<noteq> ''dyn|'' @ Member m \<longrightarrow> nxt' k = nxt k)"
proof -
  let ?key = "''dyn|'' @ Member m"
  obtain name qtype where nq: "(case parseMember E (Member m) of Some nt \<Rightarrow> nt | None \<Rightarrow> ([], 0)) = (name, qtype)"
    by fastforce
  obtain res v where R: "run_state (s_resolve s name qtype) w = (res, v)" by fastforce
  have tv: "ticks w \<le> ticks v" using assms(4) [of w name qtype] R by simp
  have delay: "s_prefetch s \<le> prefetchNextDelay ttl (s_prefetch s)" for ttl
    using assms(2) by (auto simp: prefetchNextDelay_def Let_def)
  have "\<exists>u d. ticks w \<le> u \<and> s_prefetch s \<le> d \<and> nxt' = nxt(?key \<mapsto> clock E u + d)"
  proof (cases res)
    case (Inl err)
    with assms(5) nq R have "nxt' = nxt(?key \<mapsto> clock E (ticks v) + s_prefetch s)"
      by (simp add: refresh_member_def Let_def)
    with tv show ?thesis by blast
  next
    case (Inr answer)
    obtain wire where wire: "Pack E answer = Inr wire" using assms(3) by blast
    let ?body = "do { ttl \<leftarrow> cache E s name qtype wire answer; t \<leftarrow> now E;
        _ \<leftarrow> publish E name qtype wire answer t; ret ttl }"
    obtain ttl v1 where B: "run_state ?body v = (ttl, v1)" by fastforce
    have "emits (\<lambda>_. True) ?body" by (intro emits_rules) simp_all
    from emitsE [OF this B] have "ticks v \<le> ticks v1" by auto
    moreover have "nxt' = nxt(?key \<mapsto> clock E (ticks v1) + prefetchNextDelay ttl (s_prefetch s))"
      using assms(5) nq R Inr wire B by (auto simp: refresh_member_def Let_def split: prod.splits)
    ultimately show ?thesis using tv delay le_trans by blast
  qed
  then obtain u d where n: "ticks w \<le> u" "s_prefetch s \<le> d" "nxt' = nxt(?key \<mapsto> clock E u + d)" by blast
  have "clock E (ticks w) \<le> clock E u" using n(1) by (rule monoD [OF assms(1)])
  with n(2) assms(6) have "t < clock E u + d" by linarith
  with n(3) show ?thesis by (simp add: dueDynamic_filter)
qed

section \<open>Witnesses\<close>

text \<open>A server over the in-memory Redis and the racing network of the resolver's witnesses.\<close>

definition toy_server :: "mem Server" where
  "toy_server = Server_New (mem_env racing_env) pref_resolver ''dns'' ''resolver'' (300 * second)
     (60 * second) 1000 2 (30 * second) 50 (24 * hour)"

definition toy_request :: request where
  "toy_request = \<lparr>req_id = ''7f'', req_name = ''example.com.'', req_type = 1\<rparr>"

definition toy_message :: xmessage where
  "toy_message = \<lparr>xm_id = ''1-0'', xm_values = [(''data'', marshal_request toy_request)]\<rparr>"

lemma toy_backed: "redis_backed (mem_env racing_env) (s_res toy_server)"
  "redis_backed (mem_env racing_env) pref_resolver"
  by (simp_all add: toy_server_def redis_backed_def EnablePref_def Let_def)

lemma toy_decodes:
  "map_of (xm_values toy_message) ''data'' = Some (marshal_request toy_request)"
  "unmarshal_request (marshal_request toy_request) = Some toy_request"
  by (simp_all add: toy_message_def toy_request_def unmarshal_marshal_request wf_request_def valid_utf8_ascii)

lemma toy_fields [simp]:
  "s_cacheTTL toy_server = 300 * second" "s_negTTL toy_server = 60 * second"
  "s_prefetch toy_server = 30 * second" "s_resolve toy_server = Resolve (mem_env racing_env) pref_resolver"
  "s_res toy_server = pref_resolver" "s_respMax toy_server = 1000" "s_group toy_server = ''dns''"
  by (simp_all add: toy_server_def Server_New_def Let_def)

theorem process_answers_once_witness:
  "\<exists>cs r. cmds (snd (run_state (process (mem_env racing_env) toy_server True toy_message) start_world)) = cmds start_world @ cs \<and>
    rsp_id r = req_id toy_request \<and> rsp_name r = req_name toy_request \<and> rsp_type r = req_type toy_request \<and>
    responses cs = [XADD StreamResponses (Some (s_respMax toy_server)) (marshal_response r)] \<and>
    acks cs = [XACK StreamRequests (s_group toy_server) (xm_id toy_message)]"
  by (rule process_answers_once [OF toy_backed(1) toy_decodes]) (rule prod.collapse [symmetric])

theorem process_malformed_witness:
  "let w' = snd (run_state (process (mem_env racing_env) toy_server False
       (toy_message\<lparr>xm_values := [(''data'', NotJson ''{'')]\<rparr>)) start_world)
   in cmds w' = cmds start_world @ [XACK StreamRequests (s_group toy_server) ''1-0''] \<and>
      countCh w' = countCh start_world"
  using process_malformed [where msg = "toy_message\<lparr>xm_values := [(''data'', NotJson ''{'')]\<rparr>",
      OF _ prod.collapse [symmetric], of "mem_env racing_env" toy_server False start_world]
  by (simp add: unmarshal_request_def toy_message_def Let_def)

theorem cache_lifetime_correct_witness:
  "let (ttl, w') = run_state (cache (mem_env racing_env) toy_server ''example.com.'' 1 ''wire'' two_ip_msg) start_world in
   if 300 * second \<le> 0 then ttl = 0 \<and> w' = start_world
   else 0 < ttl \<and> ttl \<le> 300 * second \<and>
     (\<forall>t \<in> set (candidate_ttls two_ip_msg). 0 < t \<longrightarrow> ttl \<le> uint t * second) \<and>
     cmds w' = cmds start_world @ [SET (CacheKey ''example.com.'' 1) ''wire'' ttl]"
proof -
  obtain ttl w' where R:
    "run_state (cache (mem_env racing_env) toy_server ''example.com.'' 1 ''wire'' two_ip_msg) start_world = (ttl, w')"
    by fastforce
  have "300 * second = (if m_rcode two_ip_msg = RcodeNameError then s_negTTL toy_server else s_cacheTTL toy_server)"
    by (simp add: two_ip_msg_def Let_def dns_constants)
  from cache_lifetime_correct [OF this R] show ?thesis unfolding R Let_def prod.case .
qed

theorem worker_backoff_bounded_witness:
  "set (fst (fst (run_state (worker (mem_env racing_env) toy_server ''c-0'' second [(False, False)]) start_world)))
     \<subseteq> {second, 2 * second, 4 * second, 8 * second}"
proof (rule worker_backoff_bounded)
  let ?R = "run_state (worker (mem_env racing_env) toy_server ''c-0'' second [(False, False)]) start_world"
  show "?R = ((fst (fst ?R), snd (fst ?R)), snd ?R)" by simp
qed

theorem worker_recreates_group_witness:
  "let E = (mem_env racing_env)\<lparr>redis := \<lambda>t c st. (RErr ''NOGROUP No such key'', st)\<rparr>;
       (out, w') = run_state (worker_round E toy_server ''c-0'' second (False, False)) start_world
   in cmds w' = cmds start_world @ [XREADGROUP (s_group toy_server) ''c-0'' StreamRequests,
      XGROUP_CREATE_MKSTREAM StreamRequests (s_group toy_server) ''0''] \<and> out \<noteq> WReturn"
proof -
  let ?E = "(mem_env racing_env)\<lparr>redis := \<lambda>t c st. (RErr ''NOGROUP No such key'', st)\<rparr>"
  obtain out w' where R: "run_state (worker_round ?E toy_server ''c-0'' second (False, False)) start_world = (out, w')"
    by fastforce
  have "cmds w' = cmds start_world @ [XREADGROUP (s_group toy_server) ''c-0'' StreamRequests,
      XGROUP_CREATE_MKSTREAM StreamRequests (s_group toy_server) ''0''] \<and> out \<noteq> WReturn"
    by (rule worker_recreates_group [OF _ _ R, where err = "''NOGROUP No such key''"]) simp_all
  with R show ?thesis by (simp add: Let_def)
qed

theorem prefetch_never_counts_witness:
  "let w' = snd (run_state (prefetchSweep (mem_env racing_env) toy_server Map.empty) start_world)
   in countCh w' = countCh start_world \<and> (\<exists>cs. cmds w' = cmds start_world @ cs \<and> list_all plain cs)"
  unfolding Let_def
  by (rule prefetch_never_counts [OF toy_server_def toy_backed(2)]) (rule prod.collapse [symmetric])

theorem prefetchDynamic_popular_witness:
  "\<exists>cs. cmds (snd (run_state (prefetchDynamic (mem_env racing_env) toy_server Map.empty) ranked_world)) =
      cmds ranked_world @ cs \<and>
    list_all (popular_cmd (mem_env racing_env) (mem_zset (store ranked_world) SetQueryCounts)) cs"
  by (rule prefetchDynamic_popular [OF mem_zsets.redis_zset_axioms toy_backed(2) toy_server_def])
     (rule prod.collapse [symmetric])

theorem resolve_fresh_outcome_witness:
  "\<exists>r w'. run_state (resolve_fresh (mem_env racing_env) toy_server toy_request zero_response) start_world = (r, w') \<and>
    ((\<exists>cs. cmds w' = cmds start_world @ cs \<and> list_all pref_cmd cs \<and> rsp_wire r = []) \<or>
     (\<exists>cs. cmds w' = cmds start_world @ cs @ [PUBLISH ChannelUpdates (marshal_update
        \<lparr>upd_name = req_name toy_request, upd_type = req_type toy_request, upd_rcode = rsp_rcode r,
         upd_resolved_at = rsp_resolved_at r, upd_wire = rsp_wire r\<rparr>)]))"
proof -
  obtain r w' where R:
    "run_state (resolve_fresh (mem_env racing_env) toy_server toy_request zero_response) start_world = (r, w')"
    by fastforce
  have "rsp_wire zero_response = []" "rsp_err zero_response = []" by (simp_all add: zero_response_def)
  from resolve_fresh_outcome [OF toy_backed(1) this R] R show ?thesis by blast
qed

theorem cached_answer_is_replayed_witness:
  "let E = mem_env racing_env; s = toy_server\<lparr>s_res := Resolver_New ''192.0.2.53:53'' ''udp'' second\<rparr>;
       w1 = snd (run_state (resolve_fresh E s toy_request zero_response) start_world);
       w2 = snd (run_state (pipeline E [PING, SET (CacheKey ''other.'' 1) ''x'' second]) w1);
       w3 = snd (run_state (answer_request E s (toy_request\<lparr>req_id := ''80''\<rparr>)) w2)
   in \<exists>r2. rsp_id r2 = ''80'' \<and> rsp_wire r2 = ''wire'' \<and> rsp_err r2 = [] \<and>
        cmds w3 = cmds w2 @ [GET (CacheKey ''example.com.'' 1), response_cmd s r2]"
proof -
  let ?E = "mem_env racing_env" and ?s = "toy_server\<lparr>s_res := Resolver_New ''192.0.2.53:53'' ''udp'' second\<rparr>"
  let ?cs = "[PING, SET (CacheKey ''other.'' 1) ''x'' second]"
  let ?F = "run_state (resolve_fresh ?E ?s toy_request zero_response) start_world"
  let ?w2 = "snd (run_state (pipeline ?E ?cs) (snd ?F))"
  let ?A = "run_state (answer_request ?E ?s (toy_request\<lparr>req_id := ''80''\<rparr>)) ?w2"
  have exch: "Exchange racing_env n net d m up = Inr two_ip_msg" for n net d m up
    by (simp add: racing_env_def stub_env_def)
  have res: "run_state (Resolve ?E (s_res ?s) (req_name toy_request) (req_type toy_request)) start_world =
      (Inr two_ip_msg, start_world\<lparr>ticks := 1\<rparr>)"
    by (simp add: Resolve_def Resolver_New_def exch start_world_def)
  have pack: "Pack ?E two_ip_msg = Inr ''wire''" by (simp add: racing_env_def stub_env_def)
  have life: "0 < cache_lifetime ?s two_ip_msg"
    by (rule cache_lifetime_bounds(2) [OF refl, THEN conjunct1])
       (simp add: two_ip_msg_def Let_def dns_constants second_def)
  have other: "list_all (\<lambda>c. \<not> touches c (CacheKey (req_name toy_request) (req_type toy_request))) ?cs"
    by (auto simp: toy_request_def dest: cache_keys.key_inj [rotated 2])
  note R = cached_answer_is_replayed [OF mem_strings.redis_strings_axioms _ res pack _ life
      prod.collapse [symmetric] other refl _ _ _ prod.collapse [symmetric],
      where ?req2.0 = "toy_request\<lparr>req_id := ''80''\<rparr>" and resp = zero_response]
  have "\<exists>r2. rsp_id r2 = req_id (toy_request\<lparr>req_id := ''80''\<rparr>) \<and> rsp_wire r2 = ''wire'' \<and> rsp_err r2 = [] \<and>
      cmds (snd ?A) = cmds ?w2 @ [GET (CacheKey (req_name toy_request) (req_type toy_request)), response_cmd ?s r2]"
    using R life by (simp add: mono_def)
  then show ?thesis by (simp add: Let_def toy_request_def)
qed

theorem refresh_member_schedules_witness:
  "let m = \<lparr>Member = ''a.|A'', Score = 3\<rparr>;
       nxt' = fst (run_state (refresh_member (mem_env racing_env) toy_server Map.empty m) start_world)
   in m \<notin> set (dueDynamic (mem_env racing_env) [m] nxt' 2000) \<and>
      (\<forall>k. k \<noteq> ''dyn|'' @ Member m \<longrightarrow> nxt' k = Map.empty k)"
  unfolding Let_def
proof (rule refresh_member_schedules)
  show "\<exists>wire. Pack (mem_env racing_env) answer = Inr wire" for answer
    by (simp add: racing_env_def stub_env_def)
  show "ticks v \<le> ticks (snd (run_state (s_resolve toy_server name qtype) v))" for name qtype v
    using emitsE [OF emits_Resolve [OF toy_backed(2)] prod.collapse [symmetric]] by (metis toy_fields(4))
  show "run_state (refresh_member (mem_env racing_env) toy_server Map.empty \<lparr>Member = ''a.|A'', Score = 3\<rparr>) start_world =
      (fst (run_state (refresh_member (mem_env racing_env) toy_server Map.empty \<lparr>Member = ''a.|A'', Score = 3\<rparr>) start_world),
       snd (run_state (refresh_member (mem_env racing_env) toy_server Map.empty \<lparr>Member = ''a.|A'', Score = 3\<rparr>) start_world))"
    by simp
qed (simp_all add: mono_def duration_units)

end
