(* ===== verification/Waiters.thy ===== *)
theory Waiters
  imports World
begin

text \<open>
  The on-demand path of \<open>internal/client/client.go\<close>: request IDs, the table of pending
  requests (\<open>register\<close>, \<open>unregister\<close>, \<open>dispatch\<close>), and the two nested \<open>select\<close> statements of
  \<open>resolve\<close>.  A call of \<open>resolve\<close> owns a channel with one buffered slot; channels are numbers.
  The goroutines that share the table, the callers and the single dispatcher, are the
  labelled steps of \<open>client_step\<close>, so a statement about every run covers every interleaving.
\<close>

section \<open>Request IDs\<close>

definition hex_encode :: "8 word list \<Rightarrow> string" where
  "hex_encode bs = concat (map hex_byte bs)"

text \<open>\<open>newID\<close>: sixteen random bytes in hex, or the clock when the random source fails.\<close>

definition newID :: "8 word list option \<Rightarrow> timestamp \<Rightarrow> string" where
  "newID random t = (case random of Some bs \<Rightarrow> hex_encode bs | None \<Rightarrow> itoa t)"

definition shortID :: "string \<Rightarrow> string" where
  "shortID i = (if length i > 8 then take 8 i else i)"

section \<open>Waiting for a response\<close>

datatype sel_event =
    GotResp response
  | XaddAck "string option"
  | TimerFires
  | CtxEnds string

text \<open>Before and after the confirmation of the \<open>XADD\<close>: the outer and the inner \<open>select\<close>.\<close>

datatype phase = Unconfirmed | Confirmed

definition check_resp :: "response \<Rightarrow> string + response" where
  "check_resp resp =
     (if rsp_err resp \<noteq> [] then Inl (rsp_err resp)
      else if length (rsp_wire resp) = 0 then Inl ''empty answer''
      else Inr resp)"

fun select_step :: "phase \<Rightarrow> sel_event \<Rightarrow> (string + response) + phase" where
  "select_step ph (GotResp resp) = Inl (check_resp resp)"
| "select_step Unconfirmed (XaddAck (Some err)) = Inl (Inl err)"
| "select_step Unconfirmed (XaddAck None) = Inr Confirmed"
| "select_step Confirmed (XaddAck e) = Inr Confirmed"
| "select_step ph TimerFires = Inl (Inl ''resolution timed out'')"
| "select_step ph (CtxEnds err) = Inl (Inl err)"

text \<open>\<open>resolve\<close> over the events its \<open>select\<close>s pick; \<open>None\<close> while it still waits.\<close>

fun resolve_wait :: "phase \<Rightarrow> sel_event list \<Rightarrow> (string + response) option" where
  "resolve_wait ph [] = None"
| "resolve_wait ph (ev # evs) =
     (case select_step ph ev of Inl res \<Rightarrow> Some res | Inr ph' \<Rightarrow> resolve_wait ph' evs)"

section \<open>The table of pending requests\<close>

record waiters =
  waits :: "string \<rightharpoonup> nat"
  bufs :: "nat \<Rightarrow> response list"

definition register :: "string \<Rightarrow> nat \<Rightarrow> waiters \<Rightarrow> waiters" where
  "register i ch W = W\<lparr>waits := (waits W)(i \<mapsto> ch)\<rparr>"

definition unregister :: "string \<Rightarrow> waiters \<Rightarrow> waiters" where
  "unregister i W = W\<lparr>waits := (waits W)(i := None)\<rparr>"

text \<open>\<open>dispatch\<close> looks the channel up under the lock and sends after releasing it.\<close>

definition dispatch_lookup :: "response \<Rightarrow> waiters \<Rightarrow> nat option" where
  "dispatch_lookup resp W = waits W (rsp_id resp)"

text \<open>A send on a channel with one slot; \<open>None\<close> when it blocks.\<close>

definition dispatch_send :: "response \<Rightarrow> nat \<Rightarrow> waiters \<Rightarrow> waiters option" where
  "dispatch_send resp ch W =
     (if length (bufs W ch) < 1 then Some (W\<lparr>bufs := (bufs W)(ch := bufs W ch @ [resp])\<rparr>) else None)"

section \<open>All goroutines together\<close>

text \<open>
  The calls of \<open>resolve\<close> in progress by their channel, what the dispatcher is about to send,
  the results returned so far, and the number of channels made.
\<close>

record csys =
  table :: waiters
  calls :: "nat \<rightharpoonup> string \<times> phase"
  sending :: "(response \<times> nat) option"
  results :: "(nat \<times> string \<times> (string + response)) list"
  made :: nat

datatype label =
    Start string
  | Look response
  | Send
  | Select nat sel_event

definition csys_init :: csys where
  "csys_init = \<lparr>table = \<lparr>waits = Map.empty, bufs = (\<lambda>_. [])\<rparr>, calls = Map.empty, sending = None,
     results = [], made = 0\<rparr>"

text \<open>A receive can only be picked when the channel's slot is full, and it empties the slot.\<close>

definition selectable :: "csys \<Rightarrow> nat \<Rightarrow> sel_event \<Rightarrow> bool" where
  "selectable S ch ev =
     (case ev of GotResp r \<Rightarrow> \<exists>rs. bufs (table S) ch = r # rs | _ \<Rightarrow> True)"

definition take_resp :: "nat \<Rightarrow> sel_event \<Rightarrow> waiters \<Rightarrow> waiters" where
  "take_resp ch ev W =
     (case ev of GotResp r \<Rightarrow> W\<lparr>bufs := (bufs W)(ch := tl (bufs W ch))\<rparr> | _ \<Rightarrow> W)"

inductive client_step :: "csys \<Rightarrow> label \<Rightarrow> csys \<Rightarrow> bool" where
  start: "client_step S (Start i)
     (S\<lparr>table := register i (made S) (table S), calls := (calls S)(made S \<mapsto> (i, Unconfirmed)),
        made := Suc (made S)\<rparr>)"
| look: "sending S = None \<Longrightarrow>
     client_step S (Look r)
       (S\<lparr>sending := (case dispatch_lookup r (table S) of None \<Rightarrow> None | Some ch \<Rightarrow> Some (r, ch))\<rparr>)"
| send: "sending S = Some (r, ch) \<Longrightarrow> dispatch_send r ch (table S) = Some W \<Longrightarrow>
     client_step S Send (S\<lparr>table := W, sending := None\<rparr>)"
| select_on: "calls S ch = Some (i, ph) \<Longrightarrow> selectable S ch ev \<Longrightarrow> select_step ph ev = Inr ph' \<Longrightarrow>
     client_step S (Select ch ev)
       (S\<lparr>table := take_resp ch ev (table S), calls := (calls S)(ch \<mapsto> (i, ph'))\<rparr>)"
| select_done: "calls S ch = Some (i, ph) \<Longrightarrow> selectable S ch ev \<Longrightarrow> select_step ph ev = Inl res \<Longrightarrow>
     client_step S (Select ch ev)
       (S\<lparr>table := unregister i (take_resp ch ev (table S)), calls := (calls S)(ch := None),
          results := results S @ [(ch, i, res)]\<rparr>)"

inductive client_run :: "csys \<Rightarrow> label list \<Rightarrow> csys \<Rightarrow> bool" where
  none: "client_run S [] S"
| more: "client_run S ls S' \<Longrightarrow> client_step S' l S'' \<Longrightarrow> client_run S (ls @ [l]) S''"

inductive_cases client_stepE: "client_step S l S'"
inductive_simps client_step_simps:
  "client_step S (Start i) S'" "client_step S (Look r) S'" "client_step S Send S'"
  "client_step S (Select ch ev) S'"

section \<open>Invariants\<close>

definition routed :: "csys \<Rightarrow> bool" where
  "routed S \<longleftrightarrow>
     (\<forall>i ch. waits (table S) i = Some ch \<longrightarrow> (\<exists>ph. calls S ch = Some (i, ph))) \<and>
     (\<forall>r ch i ph. sending S = Some (r, ch) \<longrightarrow> calls S ch = Some (i, ph) \<longrightarrow> rsp_id r = i) \<and>
     (\<forall>r ch i ph. r \<in> set (bufs (table S) ch) \<longrightarrow> calls S ch = Some (i, ph) \<longrightarrow> rsp_id r = i) \<and>
     (\<forall>ch \<ge> made S. calls S ch = None \<and> bufs (table S) ch = [] \<and> (\<forall>r. sending S \<noteq> Some (r, ch))) \<and>
     (\<forall>ch i r. (ch, i, Inr r) \<in> set (results S) \<longrightarrow> rsp_id r = i \<and> rsp_err r = [] \<and> rsp_wire r \<noteq> [])"

lemma routedD:
  assumes "routed S"
  shows "waits (table S) i = Some ch \<Longrightarrow> \<exists>ph. calls S ch = Some (i, ph)"
    and "sending S = Some (r, ch) \<Longrightarrow> calls S ch = Some (i, ph) \<Longrightarrow> rsp_id r = i"
    and "r \<in> set (bufs (table S) ch) \<Longrightarrow> calls S ch = Some (i, ph) \<Longrightarrow> rsp_id r = i"
    and "made S \<le> ch \<Longrightarrow> calls S ch = None" "made S \<le> ch \<Longrightarrow> bufs (table S) ch = []"
    and "made S \<le> ch \<Longrightarrow> sending S \<noteq> Some (r, ch)"
    and "(ch, i, Inr r) \<in> set (results S) \<Longrightarrow> rsp_id r = i \<and> rsp_err r = [] \<and> rsp_wire r \<noteq> []"
  using assms unfolding routed_def by blast+

lemma routed_init: "routed csys_init"
  by (simp add: routed_def csys_init_def)

lemma take_resp_fields [simp]:
  "waits (take_resp ch ev W) = waits W"
  "set (bufs (take_resp ch ev W) c) \<subseteq> set (bufs W c)"
  "bufs W c = [] \<Longrightarrow> bufs (take_resp ch ev W) c = []"
  by (cases "bufs W ch"; auto simp: take_resp_def split: sel_event.splits)+

lemma select_step_result:
  assumes "select_step ph ev = Inl (Inr r)"
  shows "ev = GotResp r \<and> rsp_err r = [] \<and> rsp_wire r \<noteq> []"
  using assms by (cases "(ph, ev)" rule: select_step.cases) (auto simp: check_resp_def split: if_splits)

lemma routed_start:
  assumes "routed S"
  shows "routed (S\<lparr>table := register i (made S) (table S), calls := (calls S)(made S \<mapsto> (i, Unconfirmed)),
    made := Suc (made S)\<rparr>)"
  using routedD [OF assms]
  by (fastforce simp: routed_def register_def Suc_le_eq)

lemma routed_look:
  assumes "routed S" "sending S = None"
  shows "routed (S\<lparr>sending := (case dispatch_lookup r (table S) of None \<Rightarrow> None | Some ch \<Rightarrow> Some (r, ch))\<rparr>)"
proof (cases "waits (table S) (rsp_id r)")
  case None
  with assms show ?thesis by (simp add: routed_def dispatch_lookup_def)
next
  case (Some ch)
  note R = routedD [OF assms(1)]
  from Some obtain ph where c: "calls S ch = Some (rsp_id r, ph)" using R(1) by blast
  then have "ch < made S" using R(4) [of ch] by (cases "made S \<le> ch") auto
  with c R Some show ?thesis by (auto simp: routed_def dispatch_lookup_def)
qed

lemma routed_send:
  assumes "routed S" "sending S = Some (r, ch)" "dispatch_send r ch (table S) = Some W"
  shows "routed (S\<lparr>table := W, sending := None\<rparr>)"
proof -
  note R = routedD [OF assms(1)]
  have "ch < made S" using R(6) [of ch r] assms(2) by (cases "made S \<le> ch") auto
  moreover have "bufs (table S) ch = []" "W = (table S)\<lparr>bufs := (bufs (table S))(ch := [r])\<rparr>"
    using assms(3) by (auto simp: dispatch_send_def split: if_splits)
  moreover have "\<forall>i ph. calls S ch = Some (i, ph) \<longrightarrow> rsp_id r = i" using R(2) [OF assms(2)] by blast
  ultimately show ?thesis using assms(1) unfolding routed_def by (simp split: if_splits)
qed

lemma routed_take:
  assumes "routed S"
  shows "routed (S\<lparr>table := take_resp ch ev (table S)\<rparr>)"
  using assms unfolding routed_def by (auto dest: subsetD [OF take_resp_fields(2)])

lemma routed_phase:
  assumes "routed S" "calls S ch = Some (i, ph)"
  shows "routed (S\<lparr>calls := (calls S)(ch \<mapsto> (i, ph'))\<rparr>)"
  using routedD [OF assms(1)] assms(2) by (fastforce simp: routed_def)

lemma routed_finish:
  assumes "routed S" "calls S ch = Some (i, ph)"
    and "\<And>r. res = Inr r \<Longrightarrow> rsp_id r = i \<and> rsp_err r = [] \<and> rsp_wire r \<noteq> []"
  shows "routed (S\<lparr>table := unregister i (table S), calls := (calls S)(ch := None),
    results := results S @ [(ch, i, res)]\<rparr>)"
  using routedD [OF assms(1)] assms(2,3) by (fastforce simp: routed_def unregister_def)

lemma routed_step:
  assumes "client_step S l S'" "routed S"
  shows "routed S'"
  using assms(1)
proof cases
  case (start i)
  then show ?thesis using routed_start [OF assms(2)] by simp
next
  case (look r)
  then show ?thesis using routed_look [OF assms(2)] by simp
next
  case (send r ch W)
  then show ?thesis using routed_send [OF assms(2)] by simp
next
  case (select_on ch i ph ev ph')
  have "routed (S\<lparr>table := take_resp ch ev (table S)\<rparr>\<lparr>calls := (calls S)(ch \<mapsto> (i, ph'))\<rparr>)"
    using routed_phase [OF routed_take [OF assms(2), of ch ev]] select_on(3) by simp
  with select_on show ?thesis by simp
next
  case (select_done ch i ph ev res)
  have "rsp_id r = i \<and> rsp_err r = [] \<and> rsp_wire r \<noteq> []" if "res = Inr r" for r
  proof -
    have ev: "ev = GotResp r" "rsp_err r = []" "rsp_wire r \<noteq> []"
      using select_step_result select_done(5) that by blast+
    then have "r \<in> set (bufs (table S) ch)" using select_done(4) by (auto simp: selectable_def)
    with ev routedD(3) [OF assms(2)] select_done(3) show ?thesis by blast
  qed
  with routed_finish [OF routed_take [OF assms(2), of ch ev], of ch i ph res] select_done
  show ?thesis by simp
qed

lemma routed_run: "client_run S ls S' \<Longrightarrow> routed S \<Longrightarrow> routed S'"
  by (induction rule: client_run.induct) (auto intro: routed_step)

text \<open>The IDs of the responses the dispatcher has picked up in a run.\<close>

fun looked :: "label list \<Rightarrow> string list" where
  "looked [] = []"
| "looked (Look r # ls) = rsp_id r # looked ls"
| "looked (_ # ls) = looked ls"

lemma looked_append [simp]: "looked (xs @ ys) = looked xs @ looked ys"
  by (induction xs rule: looked.induct) auto

text \<open>While responses are unique, the slot of a request not yet answered is empty.\<close>

definition slot_free :: "string set \<Rightarrow> csys \<Rightarrow> bool" where
  "slot_free seen S \<longleftrightarrow>
     (\<forall>r ch. sending S = Some (r, ch) \<longrightarrow> bufs (table S) ch = [] \<and> rsp_id r \<in> seen) \<and>
     (\<forall>i ch. waits (table S) i = Some ch \<longrightarrow> i \<notin> seen \<longrightarrow> bufs (table S) ch = [])"

lemma slot_free_step:
  assumes "client_step S l S'" "routed S" "slot_free seen S"
    and "\<And>r. l = Look r \<Longrightarrow> rsp_id r \<notin> seen"
  shows "slot_free (seen \<union> set (looked [l])) S'"
  using assms(1)
proof cases
  case (start i)
  have "bufs (table S) (made S) = []" using routedD(5) [OF assms(2)] by simp
  with start assms(3) show ?thesis by (auto simp: slot_free_def register_def)
next
  case (look r)
  then show ?thesis
    using assms(3) assms(4) [of r]
    by (auto simp: slot_free_def dispatch_lookup_def split: option.splits)
next
  case (send r ch W)
  then have W: "W = (table S)\<lparr>bufs := (bufs (table S))(ch := [r])\<rparr>"
    by (auto simp: dispatch_send_def split: if_splits)
  have seen: "rsp_id r \<in> seen" using assms(3) send(3) by (auto simp: slot_free_def)
  have "i \<in> seen" if "waits (table S) i = Some ch" for i
    using routedD(1) [OF assms(2) that] routedD(2) [OF assms(2) send(3)] seen by blast
  with send W assms(3) show ?thesis by (auto simp: slot_free_def)
next
  case (select_on ch i ph ev ph')
  then show ?thesis using assms(3) by (auto simp: slot_free_def)
next
  case (select_done ch i ph ev res)
  then show ?thesis using assms(3) by (auto simp: slot_free_def unregister_def)
qed

lemma slot_free_run:
  "client_run csys_init ls S \<Longrightarrow> distinct (looked ls) \<Longrightarrow> routed S \<and> slot_free (set (looked ls)) S"
proof (induction csys_init ls S rule: client_run.induct)
  case none
  have "slot_free {} csys_init" by (simp add: slot_free_def csys_init_def)
  with routed_init show ?case by simp
next
  case (more ls S' l S'')
  then have "routed S'" "slot_free (set (looked ls)) S'" by simp_all
  moreover have "rsp_id r \<notin> set (looked ls)" if "l = Look r" for r
    using more.prems that by simp
  ultimately show ?case
    using routed_step [OF more.hyps(3)] slot_free_step [OF more.hyps(3)] by simp
qed

section \<open>Lemmas: identifiers and waiting\<close>

lemma hex_digit_inj: "a < 16 \<Longrightarrow> b < 16 \<Longrightarrow> hex_digit a = hex_digit b \<Longrightarrow> a = b"
  by (drule arg_cong [where f = "of_char :: char \<Rightarrow> nat"]) (auto simp: hex_digit_def split: if_splits)

lemma hex_byte_inj: "hex_byte a = hex_byte b \<Longrightarrow> a = b"
proof -
  assume h: "hex_byte a = hex_byte b"
  have lt: "unat a < 256" "unat b < 256" using unsigned_less [of a] unsigned_less [of b] by simp_all
  then have "unat a div 16 = unat b div 16" "unat a mod 16 = unat b mod 16"
    using h by (auto simp: hex_byte_def intro!: hex_digit_inj)
  then have "unat a = unat b" by (metis div_mult_mod_eq)
  then show ?thesis by (simp add: unsigned_word_eqI word_eq_iff_unsigned)
qed

lemma hex_encode_inj: "length as = length bs \<Longrightarrow> hex_encode as = hex_encode bs \<Longrightarrow> as = bs"
proof (induction as bs rule: list_induct2)
  case (Cons a as b bs)
  from Cons.prems have "hex_byte a = hex_byte b" "hex_encode as = hex_encode bs"
    by (simp_all add: hex_encode_def hex_byte_def)
  with Cons.IH show ?case by (simp add: hex_byte_inj)
qed simp

lemma length_hex_encode: "length (hex_encode bs) = 2 * length bs"
  by (induction bs) (simp_all add: hex_encode_def hex_byte_def)

lemma hex_digit_ascii: "d < 16 \<Longrightarrow> of_char (hex_digit d) < (128 :: nat)"
  by (simp add: hex_digit_def)

lemma hex_byte_ascii: "list_all (\<lambda>c. of_char c < (128 :: nat)) (hex_byte b)"
proof -
  have "unat b < 256" using unsigned_less [of b] by simp
  then have "unat b div 16 < 16" "unat b mod 16 < 16" by simp_all
  then show ?thesis by (simp add: hex_byte_def hex_digit_ascii)
qed

lemma valid_utf8_hex_encode: "valid_utf8 (hex_encode bs)"
proof (rule valid_utf8_ascii)
  show "list_all (\<lambda>c. of_char c < (128 :: nat)) (hex_encode bs)"
    using hex_byte_ascii by (induction bs) (simp_all add: hex_encode_def)
qed

fun decisive :: "phase \<Rightarrow> sel_event \<Rightarrow> bool" where
  "decisive ph (XaddAck None) = False"
| "decisive Unconfirmed (XaddAck (Some e)) = True"
| "decisive Confirmed (XaddAck (Some e)) = False"
| "decisive ph (GotResp r) = True"
| "decisive ph TimerFires = True"
| "decisive ph (CtxEnds e) = True"

lemma select_step_decisive: "(\<exists>res. select_step ph ev = Inl res) \<longleftrightarrow> decisive ph ev"
  by (cases "(ph, ev)" rule: decisive.cases; cases ph) auto

section \<open>Example runs\<close>

definition toy_response :: response where
  "toy_response = zero_response\<lparr>rsp_id := ''a'', rsp_wire := ''wire''\<rparr>"

lemma toy_response_fields [simp]:
  "rsp_id toy_response = ''a''" "rsp_err toy_response = []" "rsp_wire toy_response = ''wire''"
  by (simp_all add: toy_response_def zero_response_def)

lemmas run_eval =
  client_step_simps csys_init_def register_def unregister_def dispatch_lookup_def dispatch_send_def
  selectable_def take_resp_def check_resp_def fun_eq_iff

text \<open>A request is sent, and the dispatcher holds its response.\<close>

definition sent_state :: csys where
  "sent_state = \<lparr>table = \<lparr>waits = [''a'' \<mapsto> 0], bufs = (\<lambda>_. [])\<rparr>, calls = [0 \<mapsto> (''a'', Unconfirmed)],
     sending = Some (toy_response, 0), results = [], made = 1\<rparr>"

lemma sent_run: "client_run csys_init (([] @ [Start ''a'']) @ [Look toy_response]) sent_state"
  by (rule client_run.more [OF client_run.more [OF client_run.none client_step.start]])
     (simp add: run_eval sent_state_def)

text \<open>The response is in the slot of the caller's channel.\<close>

definition slot_state :: csys where
  "slot_state = sent_state\<lparr>table := \<lparr>waits = [''a'' \<mapsto> 0], bufs = (\<lambda>_. [])(0 := [toy_response])\<rparr>, sending := None\<rparr>"

lemma slot_run: "client_run csys_init ((([] @ [Start ''a'']) @ [Look toy_response]) @ [Send]) slot_state"
  by (rule client_run.more [OF sent_run]) (simp add: run_eval sent_state_def slot_state_def)

text \<open>The caller has taken it.\<close>

definition answered_state :: csys where
  "answered_state = \<lparr>table = \<lparr>waits = Map.empty, bufs = (\<lambda>_. [])\<rparr>,
     calls = Map.empty, sending = None, results = [(0, ''a'', Inr toy_response)], made = 1\<rparr>"

lemma answered_run:
  "client_run csys_init
     (((([] @ [Start ''a'']) @ [Look toy_response]) @ [Send]) @ [Select 0 (GotResp toy_response)]) answered_state"
  by (rule client_run.more [OF slot_run]) (simp add: run_eval sent_state_def slot_state_def answered_state_def)

text \<open>A duplicate is picked up while the slot is full, and the caller times out.\<close>

definition stuck_state :: csys where
  "stuck_state = \<lparr>table = \<lparr>waits = Map.empty, bufs = (\<lambda>_. [])(0 := [toy_response])\<rparr>,
     calls = Map.empty, sending = Some (toy_response, 0),
     results = [(0, ''a'', Inl ''resolution timed out'')], made = 1\<rparr>"

lemma stuck_run:
  "client_run csys_init
     ((((([] @ [Start ''a'']) @ [Look toy_response]) @ [Send]) @ [Look toy_response]) @ [Select 0 TimerFires]) stuck_state"
proof (rule client_run.more [OF client_run.more [OF slot_run]])
  show "client_step slot_state (Look toy_response) (slot_state\<lparr>sending := Some (toy_response, 0)\<rparr>)"
    by (simp add: run_eval slot_state_def)
  show "client_step (slot_state\<lparr>sending := Some (toy_response, 0)\<rparr>) (Select 0 TimerFires) stuck_state"
    by (simp add: run_eval sent_state_def slot_state_def stuck_state_def)
qed

section \<open>Properties\<close>

text \<open>
  C5: Responses reach the right caller: over every interleaving of callers and dispatcher,
  whatever responses the stream delivers (late, duplicate or unknown ones included), a call
  of \<open>resolve\<close> that succeeds returns a response with the ID of its own request, without an
  error and with a message.
\<close>

theorem resolve_routes:
  assumes "client_run csys_init ls S" and "(ch, i, Inr r) \<in> set (results S)"
  shows "rsp_id r = i \<and> rsp_err r = [] \<and> rsp_wire r \<noteq> []"
  using routedD(7) [OF routed_run [OF assms(1) routed_init] assms(2)] .

text \<open>
  The pending table does not leak: every registered ID belongs to a call still in
  progress, so when no call is in progress the table is empty.
\<close>

theorem waits_no_leak:
  assumes "client_run csys_init ls S"
  shows "(\<forall>i ch. waits (table S) i = Some ch \<longrightarrow> (\<exists>ph. calls S ch = Some (i, ph))) \<and>
    (calls S = Map.empty \<longrightarrow> waits (table S) = Map.empty)"
proof -
  have "\<forall>i ch. waits (table S) i = Some ch \<longrightarrow> (\<exists>ph. calls S ch = Some (i, ph))"
    using routedD(1) [OF routed_run [OF assms routed_init]] by blast
  moreover from this have "calls S = Map.empty \<longrightarrow> waits (table S) = Map.empty"
    by (metis ext option.exhaust option.distinct(1))
  ultimately show ?thesis by blast
qed

text \<open>
  C23: As long as no ID is answered twice, the dispatcher never waits for a caller: whenever
  it holds a response for a channel, its send can go through at once.
\<close>

theorem dispatcher_never_blocks:
  assumes "client_run csys_init ls S" and "distinct (looked ls)" and "sending S = Some (r, ch)"
  shows "\<exists>S'. client_step S Send S'"
proof -
  have "bufs (table S) ch = []"
    using slot_free_run [OF assms(1,2)] assms(3) by (auto simp: slot_free_def)
  with assms(3) show ?thesis by (simp add: client_step_simps dispatch_send_def)
qed

lemma wedged_step:
  assumes "client_step S l S'" "sending S = Some (r, ch)" "bufs (table S) ch \<noteq> []" "calls S ch = None"
    and "ch < made S"
  shows "sending S' = Some (r, ch) \<and> bufs (table S') ch \<noteq> [] \<and> calls S' ch = None \<and> ch < made S'"
  using assms(1)
proof cases
  case (select_on c i ph ev ph')
  then have "c \<noteq> ch" using assms(4) by auto
  with select_on assms show ?thesis by (auto simp: take_resp_def split: sel_event.splits)
next
  case (select_done c i ph ev res)
  then have "c \<noteq> ch" using assms(4) by auto
  with select_done assms show ?thesis by (auto simp: take_resp_def unregister_def split: sel_event.splits)
qed (use assms in \<open>auto simp: register_def dispatch_send_def split: if_splits\<close>)

lemma wedged_run:
  assumes "client_run S ls S'" "sending S = Some (r, ch)" "bufs (table S) ch \<noteq> []" "calls S ch = None"
    and "ch < made S"
  shows "sending S' = Some (r, ch) \<and> bufs (table S') ch \<noteq> [] \<and> calls S' ch = None \<and> ch < made S'"
  using assms by (induction rule: client_run.induct) (auto dest: wedged_step)

text \<open>
  C24: A second response with the ID of a request that times out at the wrong moment stops
  the dispatcher for good: the channel's only slot is full, its reader is gone, and no
  later step of any goroutine lets the dispatcher go on, so no later request is answered.
\<close>

theorem duplicate_response_wedges_dispatcher:
  "\<exists>ls S r. client_run csys_init ls S \<and> sending S = Some (r, 0) \<and> rsp_id r = ''a'' \<and>
    (\<forall>ls' S'. client_run S ls' S' \<longrightarrow> sending S' = Some (r, 0))"
proof -
  have "sending S' = Some (toy_response, 0)" if "client_run stuck_state ls' S'" for ls' S'
    using wedged_run [OF that, of toy_response 0] by (simp add: stuck_state_def)
  then show ?thesis
    using stuck_run by (intro exI [of _ stuck_state] exI [of _ toy_response] exI conjI) (auto simp: stuck_state_def)
qed

text \<open>
  A call of \<open>resolve\<close> always comes to an end: it is still waiting only while nothing but
  the confirmation of its own request has been picked, it succeeds only with a response
  it received, and the first decisive event fixes its result.
\<close>

theorem resolve_wait_decides:
  "(resolve_wait Unconfirmed evs = None \<longleftrightarrow>
      (\<forall>ev \<in> set evs. \<exists>e. ev = XaddAck e) \<and> (evs = [] \<or> hd evs = XaddAck None)) \<and>
   (\<forall>r. resolve_wait Unconfirmed evs = Some (Inr r) \<longrightarrow>
      GotResp r \<in> set evs \<and> rsp_err r = [] \<and> rsp_wire r \<noteq> [])"
proof -
  have conf: "resolve_wait Confirmed es = None \<longleftrightarrow> (\<forall>ev \<in> set es. \<exists>e. ev = XaddAck e)" for es
  proof (induction es)
    case (Cons ev es)
    then show ?case by (cases ev) auto
  qed simp
  have res: "resolve_wait ph es = Some (Inr r) \<Longrightarrow> GotResp r \<in> set es \<and> rsp_err r = [] \<and> rsp_wire r \<noteq> []"
    for ph es r
    by (induction ph es rule: resolve_wait.induct) (auto split: sum.splits dest: select_step_result)
  have "resolve_wait Unconfirmed evs = None \<longleftrightarrow>
      (\<forall>ev \<in> set evs. \<exists>e. ev = XaddAck e) \<and> (evs = [] \<or> hd evs = XaddAck None)"
  proof (cases evs)
    case (Cons ev es)
    show ?thesis
    proof (cases ev)
      case (XaddAck e)
      with Cons conf show ?thesis by (cases e) auto
    qed (use Cons in auto)
  qed simp
  with res show ?thesis by blast
qed

text \<open>
  Request IDs from the random source are as distinct as the random bytes: the hex text
  of sixteen bytes has 32 characters, all ASCII, and determines the bytes.
\<close>

theorem newID_injective:
  assumes "length as = 16" and "length bs = 16"
  shows "(newID (Some as) t = newID (Some bs) t' \<longleftrightarrow> as = bs) \<and> length (newID (Some as) t) = 32 \<and>
    valid_utf8 (newID (Some as) t) \<and> length (shortID (newID (Some as) t)) = 8"
  using assms hex_encode_inj [of as bs]
  by (auto simp: newID_def shortID_def length_hex_encode valid_utf8_hex_encode)

section \<open>Witnesses\<close>

theorem resolve_routes_witness:
  "rsp_id toy_response = ''a'' \<and> rsp_err toy_response = [] \<and> rsp_wire toy_response \<noteq> []"
  by (rule resolve_routes [OF answered_run, where ch = 0]) (simp add: answered_state_def)

theorem waits_no_leak_witness: "waits (table answered_state) = Map.empty"
  using waits_no_leak [OF answered_run] by (simp add: answered_state_def)

theorem dispatcher_never_blocks_witness: "\<exists>S'. client_step sent_state Send S'"
  by (rule dispatcher_never_blocks [OF sent_run]) (simp_all add: sent_state_def)

theorem duplicate_response_wedges_dispatcher_witness:
  "\<exists>ls S. client_run csys_init ls S \<and> sending S \<noteq> None"
  using duplicate_response_wedges_dispatcher by auto

theorem resolve_wait_decides_witness:
  "GotResp toy_response \<in> set [XaddAck None, GotResp toy_response] \<and> rsp_err toy_response = [] \<and>
   resolve_wait Unconfirmed [XaddAck None] = None"
  using resolve_wait_decides [of "[XaddAck None, GotResp toy_response]"] resolve_wait_decides [of "[XaddAck None]"]
  by (simp add: check_resp_def)

theorem newID_injective_witness:
  "(newID (Some (replicate 16 7)) 0 = newID (Some (replicate 16 8)) 5 \<longleftrightarrow> replicate 16 7 = replicate 16 (8 :: 8 word)) \<and>
   length (newID (Some (replicate 16 7)) 0) = 32 \<and> valid_utf8 (newID (Some (replicate 16 7)) 0) \<and>
   length (shortID (newID (Some (replicate 16 7)) 0)) = 8"
  by (rule newID_injective) simp_all

end
