(* ===== verification/Client.thy ===== *)
theory Client
  imports Waiters Resolver
begin

text \<open>
  \<open>internal/client/client.go\<close>: the client's local cache, the query path shared by the DNS and
  the DoH front ends, and the loops that read the response stream and the update channel.
  \<open>singleflight\<close> is a third-party package: what \<open>Do\<close> returns for a key is an argument of the
  query path.  Each operation takes the time its reading of the clock gives.
\<close>

section \<open>State\<close>

record localEntry =
  le_wire :: bytes
  le_expire :: timestamp
  le_resolvedAt :: int

record Client =
  c_rdb :: redis_options
  c_block :: duration
  c_localTTL :: duration
  c_local :: "string \<rightharpoonup> localEntry"

definition Client_New :: "redis_options \<Rightarrow> duration \<Rightarrow> duration \<Rightarrow> Client" where
  "Client_New rdb block localTTL =
     (let block = (if block \<le> 0 then 5 * second else block);
          localTTL = (if localTTL \<le> 0 then 300 * second else localTTL)
      in \<lparr>c_rdb = rdb, c_block = block, c_localTTL = localTTL, c_local = Map.empty\<rparr>)"

text \<open>\<open>SwapRedis\<close> returns the pool that is closed after the grace period.\<close>

definition SwapRedis :: "Client \<Rightarrow> redis_options \<Rightarrow> Client \<times> redis_options" where
  "SwapRedis c rdb = (c\<lparr>c_rdb := rdb, c_local := Map.empty\<rparr>, c_rdb c)"

section \<open>The local cache\<close>

text \<open>
  \<open>localGet\<close> reads under the read lock and, when the entry has expired, deletes the key under
  the write lock; other goroutines can run in between.
\<close>

definition localGet_read :: "Client \<Rightarrow> timestamp \<Rightarrow> string \<Rightarrow> bytes option \<times> bool" where
  "localGet_read c t key =
     (case c_local c key of
        None \<Rightarrow> (None, False)
      | Some e \<Rightarrow> if t > le_expire e then (None, True) else (Some (le_wire e), False))"

definition localGet_evict :: "Client \<Rightarrow> string \<Rightarrow> Client" where
  "localGet_evict c key = c\<lparr>c_local := (c_local c)(key := None)\<rparr>"

definition localGet :: "Client \<Rightarrow> timestamp \<Rightarrow> string \<Rightarrow> bytes option \<times> Client" where
  "localGet c t key =
     (let (res, expired) = localGet_read c t key
      in (res, if expired then localGet_evict c key else c))"

definition local_lifetime :: "'r env \<Rightarrow> Client \<Rightarrow> bytes \<Rightarrow> duration" where
  "local_lifetime E c wire =
     (case Unpack E wire of
        Inl err \<Rightarrow> c_localTTL c
      | Inr m \<Rightarrow> (let mn = MinTTL m in if mn > 0 then dur_mul (uint mn) second else c_localTTL c))"

definition localSet :: "'r env \<Rightarrow> Client \<Rightarrow> timestamp \<Rightarrow> string \<Rightarrow> bytes \<Rightarrow> int \<Rightarrow> Client" where
  "localSet E c t key wire resolvedAt =
     (let ttl = local_lifetime E c wire;
          write = c\<lparr>c_local := (c_local c)(key \<mapsto>
                     \<lparr>le_wire = wire, le_expire = t + ttl, le_resolvedAt = resolvedAt\<rparr>)\<rparr>
      in case c_local c key of
           Some e \<Rightarrow> if le_resolvedAt e > resolvedAt then c else write
         | None \<Rightarrow> write)"

section \<open>The query path\<close>

definition resolveQuery ::
  "'r env \<Rightarrow> Client \<Rightarrow> timestamp \<Rightarrow> timestamp \<Rightarrow> (string \<Rightarrow> string \<Rightarrow> u16 \<Rightarrow> string + response) \<Rightarrow>
   dns_msg \<Rightarrow> (bytes option \<times> int) \<times> Client" where
  "resolveQuery E c t1 t2 sfDo r =
     (if length (m_question r) \<noteq> 1 then ((None, RcodeFormatError), c)
      else
        (let q = m_question r ! 0;
             name = to_lower (Fqdn E (q_name q));
             key = CacheKey name (q_type q)
         in case localGet c t1 key of
              (Some wire, c') \<Rightarrow> ((Some wire, RcodeSuccess), c')
            | (None, c') \<Rightarrow>
                (case sfDo key name (q_type q) of
                   Inl err \<Rightarrow> ((None, RcodeServerFailure), c')
                 | Inr resp \<Rightarrow>
                     ((Some (rsp_wire resp), RcodeSuccess),
                      localSet E c' t2 key (rsp_wire resp) (rsp_resolved_at resp)))))"

definition reply :: "'r env \<Rightarrow> dns_msg \<Rightarrow> bytes \<Rightarrow> dns_msg" where
  "reply E r wire =
     (case Unpack E wire of
        Inl err \<Rightarrow> (SetReply E r)\<lparr>m_rcode := RcodeServerFailure\<rparr>
      | Inr m \<Rightarrow> m\<lparr>m_id := m_id r\<rparr>)"

text \<open>The DNS front end: the message written back.\<close>

definition client_handle ::
  "'r env \<Rightarrow> Client \<Rightarrow> timestamp \<Rightarrow> timestamp \<Rightarrow> (string \<Rightarrow> string \<Rightarrow> u16 \<Rightarrow> string + response) \<Rightarrow>
   dns_msg \<Rightarrow> dns_msg \<times> Client" where
  "client_handle E c t1 t2 sfDo r =
     (let ((wire, rcode), c') = resolveQuery E c t1 t2 sfDo r
      in (case wire of
            None \<Rightarrow> (SetReply E r)\<lparr>m_rcode := rcode\<rparr>
          | Some b \<Rightarrow> reply E r b, c'))"

section \<open>DNS over HTTPS\<close>

datatype http_body = Body bytes | ReadError

record http_request =
  h_method :: string
  h_dns :: string
  h_content_type :: string
  h_body :: http_body

record http_response =
  h_status :: int
  h_ctype :: string
  h_data :: bytes

definition http_Error :: "string \<Rightarrow> int \<Rightarrow> http_response" where
  "http_Error msg code =
     \<lparr>h_status = code, h_ctype = ''text/plain; charset=utf-8'', h_data = msg @ [char_of (10 :: nat)]\<rparr>"

definition doh_decode :: "'r env \<Rightarrow> http_request \<Rightarrow> http_response + dns_msg" where
  "doh_decode E req =
     (let unpack = (\<lambda>b. case Unpack E b of
                          Inl err \<Rightarrow> Inl (http_Error ''invalid dns message'' 400)
                        | Inr m \<Rightarrow> Inr m)
      in if h_method req = ''GET'' then
           (case rawurl_decode (h_dns req) of
              None \<Rightarrow> Inl (http_Error ''invalid dns parameter'' 400)
            | Some b \<Rightarrow> unpack b)
         else if h_method req = ''POST'' then
           (if h_content_type req \<noteq> ''application/dns-message''
            then Inl (http_Error ''unsupported content type'' 415)
            else
              (case h_body req of
                 ReadError \<Rightarrow> Inl (http_Error ''read body'' 400)
               | Body b \<Rightarrow> unpack (take 65536 b)))
         else Inl \<lparr>h_status = 405, h_ctype = [], h_data = []\<rparr>)"

definition dohHandler ::
  "'r env \<Rightarrow> Client \<Rightarrow> timestamp \<Rightarrow> timestamp \<Rightarrow> (string \<Rightarrow> string \<Rightarrow> u16 \<Rightarrow> string + response) \<Rightarrow>
   http_request \<Rightarrow> http_response \<times> Client" where
  "dohHandler E c t1 t2 sfDo req =
     (case doh_decode E req of
        Inl resp \<Rightarrow> (resp, c)
      | Inr msg \<Rightarrow>
          (let ((wire, rcode), c') = resolveQuery E c t1 t2 sfDo msg;
               body = (case wire of
                         Some b \<Rightarrow> b
                       | None \<Rightarrow>
                           (case Pack E ((SetReply E msg)\<lparr>m_rcode := rcode\<rparr>) of
                              Inl err \<Rightarrow> [] | Inr b \<Rightarrow> b))
           in (\<lparr>h_status = 200, h_ctype = ''application/dns-message'', h_data = body\<rparr>, c')))"

section \<open>The dispatcher loop\<close>

fun dispatcher_batch :: "string \<Rightarrow> xmessage list \<Rightarrow> string \<times> response list" where
  "dispatcher_batch lastID [] = (lastID, [])"
| "dispatcher_batch lastID (msg # ms) =
     (let (l, rs) = dispatcher_batch (xm_id msg) ms in
      case map_of (xm_values msg) ''data'' of
        None \<Rightarrow> (l, rs)
      | Some data \<Rightarrow>
          (case unmarshal_response data of
             None \<Rightarrow> (l, rs)
           | Some resp \<Rightarrow> (l, resp # rs)))"

datatype dispatcher_out =
    DReturn
  | DNext (d_lastID: string) (d_backoff: duration) (d_sleep: "duration option") (d_responses: "response list")

definition dispatcher_round ::
  "'r env \<Rightarrow> string \<Rightarrow> duration \<Rightarrow> bool \<times> bool \<Rightarrow> ('r, dispatcher_out) io" where
  "dispatcher_round E lastID backoff ended =
     (if fst ended then ret DReturn
      else
        do { rep \<leftarrow> call E (XREAD StreamResponses lastID);
             ret (case reply_err rep of
                    Some err \<Rightarrow>
                      if snd ended then DReturn
                      else if rep = RNil then DNext lastID backoff None []
                      else DNext lastID (if backoff < 5 * second then dur_mul backoff 2 else backoff)
                             (Some backoff) []
                  | None \<Rightarrow>
                      (let (l, rs) = dispatcher_batch lastID (case rep of RMessages ms \<Rightarrow> ms | _ \<Rightarrow> [])
                       in DNext l second None rs)) })"

fun runDispatcher ::
  "'r env \<Rightarrow> string \<Rightarrow> duration \<Rightarrow> (bool \<times> bool) list \<Rightarrow> ('r, response list) io" where
  "runDispatcher E lastID backoff [] = ret []"
| "runDispatcher E lastID backoff (ended # rest) =
     do { out \<leftarrow> dispatcher_round E lastID backoff ended;
          case out of
            DReturn \<Rightarrow> ret []
          | DNext l b sleep rs \<Rightarrow>
              do { more \<leftarrow> runDispatcher E l b rest; ret (rs @ more) } }"

section \<open>The update subscriber\<close>

datatype sub_event = SubDone | SubClosed | SubMsg json_text timestamp

definition warm :: "'r env \<Rightarrow> Client \<Rightarrow> timestamp \<Rightarrow> json_text \<Rightarrow> Client" where
  "warm E c t payload =
     (case unmarshal_update payload of
        None \<Rightarrow> c
      | Some upd \<Rightarrow>
          if length (upd_wire upd) = 0 then c
          else localSet E c t (CacheKey (upd_name upd) (upd_type upd)) (upd_wire upd) (upd_resolved_at upd))"

text \<open>A closed subscription is opened again; only the context's end stops the loop.\<close>

fun runSubscriber :: "'r env \<Rightarrow> Client \<Rightarrow> sub_event list \<Rightarrow> Client" where
  "runSubscriber E c [] = c"
| "runSubscriber E c (SubDone # evs) = c"
| "runSubscriber E c (SubClosed # evs) = runSubscriber E c evs"
| "runSubscriber E c (SubMsg payload t # evs) = runSubscriber E (warm E c t payload) evs"

section \<open>The contract of a versioned store\<close>

text \<open>
  A store that keeps, per key, the value written with the greatest version, the latest one
  among equals.  The extra argument of a write carries what does not take part in the
  ordering.
\<close>

definition put_all ::
  "('s \<Rightarrow> string \<Rightarrow> int \<Rightarrow> 'v \<Rightarrow> 'x \<Rightarrow> 's) \<Rightarrow> 's \<Rightarrow> (string \<times> int \<times> 'v \<times> 'x) list \<Rightarrow> 's" where
  "put_all put s ws = foldl (\<lambda>s (k, n, v, x). put s k n v x) s ws"

locale versioned_store =
  fixes lookup :: "'s \<Rightarrow> string \<Rightarrow> (int \<times> 'v) option"
    and put :: "'s \<Rightarrow> string \<Rightarrow> int \<Rightarrow> 'v \<Rightarrow> 'x \<Rightarrow> 's"
  assumes put_same:
      "lookup (put s k n v x) k =
         (case lookup s k of
            Some (m, u) \<Rightarrow> if m > n then Some (m, u) else Some (n, v)
          | None \<Rightarrow> Some (n, v))"
    and put_other: "k \<noteq> k' \<Longrightarrow> lookup (put s k n v x) k' = lookup s k'"
begin

lemma puts_snoc: "put_all put s (ws @ [(k, n, v, x)]) = put (put_all put s ws) k n v x"
  by (simp add: put_all_def)

lemma put_version_grows:
  "lookup s k = Some (m, u) \<Longrightarrow> \<exists>m' u'. lookup (put s k' n v x) k = Some (m', u') \<and> m \<le> m'"
  by (cases "k = k'") (auto simp: put_same put_other)

lemma puts_version_grows:
  "lookup s k = Some (m, u) \<Longrightarrow> \<exists>m' u'. lookup (put_all put s ws) k = Some (m', u') \<and> m \<le> m'"
proof (induction ws rule: rev_induct)
  case (snoc w ws)
  obtain k' n v x where w: "w = (k', n, v, x)" by (cases w) auto
  from snoc obtain m' u' where "lookup (put_all put s ws) k = Some (m', u')" "m \<le> m'" by blast
  with put_version_grows [of "put_all put s ws" k m' u' k' n v x] show ?case
    unfolding w puts_snoc by fastforce
qed (simp add: put_all_def)

lemma puts_newest:
  assumes "lookup s k = None" "(k, n, v, x) \<in> set ws"
  shows "\<exists>m u y. lookup (put_all put s ws) k = Some (m, u) \<and> (k, m, u, y) \<in> set ws \<and>
    (\<forall>n' v' x'. (k, n', v', x') \<in> set ws \<longrightarrow> n' \<le> m)"
  using assms(2)
proof (induction ws arbitrary: n v x rule: rev_induct)
  case (snoc w ws)
  obtain k' n' v' x' where w: "w = (k', n', v', x')" by (cases w) auto
  show ?case
  proof (cases "\<exists>n v x. (k, n, v, x) \<in> set ws")
    case True
    then obtain m u y where old: "lookup (put_all put s ws) k = Some (m, u)" "(k, m, u, y) \<in> set ws"
      "\<forall>n' v' x'. (k, n', v', x') \<in> set ws \<longrightarrow> n' \<le> m"
      using snoc.IH by blast
    show ?thesis
    proof (cases "k' = k \<and> n' \<ge> m")
      case True
      with old show ?thesis unfolding w puts_snoc
        by (intro exI [of _ n'] exI [of _ v'] exI [of _ x']) (auto simp: put_same intro: order_trans)
    next
      case False
      then have "lookup (put (put_all put s ws) k' n' v' x') k = Some (m, u)"
        using old(1) by (cases "k' = k") (auto simp: put_same put_other)
      with False old show ?thesis unfolding w puts_snoc
        by (intro exI [of _ m] exI [of _ u] exI [of _ y]) auto
    qed
  next
    case False
    have "lookup (put_all put s ws) k = None"
      using False assms(1)
    proof (induction ws rule: rev_induct)
      case (snoc a ws)
      obtain k1 n1 v1 x1 where a: "a = (k1, n1, v1, x1)" by (cases a) auto
      with snoc have "k1 \<noteq> k" by auto
      with snoc a show ?case by (auto simp: puts_snoc put_other)
    qed (simp add: put_all_def)
    with False snoc.prems w show ?thesis unfolding w puts_snoc
      by (intro exI [of _ n'] exI [of _ v'] exI [of _ x']) (auto simp: put_same)
  qed
qed simp

end

section \<open>The local cache is a versioned store\<close>

definition local_version :: "Client \<Rightarrow> string \<Rightarrow> (int \<times> bytes) option" where
  "local_version c k = map_option (\<lambda>e. (le_resolvedAt e, le_wire e)) (c_local c k)"

definition local_put :: "'r env \<Rightarrow> Client \<Rightarrow> string \<Rightarrow> int \<Rightarrow> bytes \<Rightarrow> timestamp \<Rightarrow> Client" where
  "local_put E c k n wire t = localSet E c t k wire n"

interpretation local_store: versioned_store local_version "local_put E" for E :: "'r env"
  by unfold_locales
     (auto simp: local_version_def local_put_def localSet_def Let_def split: option.splits)

text \<open>A sequence of writes to the cache, each with its key, version, message and time.\<close>

fun local_writes :: "'r env \<Rightarrow> Client \<Rightarrow> (string \<times> int \<times> bytes \<times> timestamp) list \<Rightarrow> Client" where
  "local_writes E c [] = c"
| "local_writes E c ((k, n, wire, t) # ws) = local_writes E (localSet E c t k wire n) ws"

lemma local_writes_puts: "local_writes E c ws = put_all (local_put E) c ws"
  by (induction E c ws rule: local_writes.induct) (simp_all add: put_all_def local_put_def)

lemma localSet_keeps [simp]:
  "c_rdb (localSet E c t k w n) = c_rdb c" "c_block (localSet E c t k w n) = c_block c"
  "c_localTTL (localSet E c t k w n) = c_localTTL c"
  by (simp_all add: localSet_def Let_def split: option.splits)

lemma localGet_fields [simp]:
  "c_localTTL (snd (localGet c t k)) = c_localTTL c" "c_rdb (snd (localGet c t k)) = c_rdb c"
  by (simp_all add: localGet_def localGet_read_def localGet_evict_def split: option.splits)

lemma localGet_hit:
  "fst (localGet c t k) = Some wire \<longleftrightarrow> (\<exists>e. c_local c k = Some e \<and> le_wire e = wire \<and> t \<le> le_expire e)"
  by (auto simp: localGet_def localGet_read_def split: option.splits)

lemma localGet_state:
  "c_local (snd (localGet c t k)) =
     (case c_local c k of Some e \<Rightarrow> if t > le_expire e then (c_local c)(k := None) else c_local c
      | None \<Rightarrow> c_local c)"
  by (auto simp: localGet_def localGet_read_def localGet_evict_def split: option.splits)

lemma localSet_fresh:
  assumes "\<And>e. c_local c k = Some e \<Longrightarrow> le_resolvedAt e \<le> n"
  shows "c_local (localSet E c t k wire n) k =
    Some \<lparr>le_wire = wire, le_expire = t + local_lifetime E c wire, le_resolvedAt = n\<rparr>"
  using assms by (auto simp: localSet_def Let_def not_less split: option.splits)

lemma localSet_other: "k \<noteq> k' \<Longrightarrow> c_local (localSet E c t k wire n) k' = c_local c k'"
  by (simp add: localSet_def Let_def split: option.splits)

lemma resolveQuery_cases:
  assumes "m_question r = [q]" "name = to_lower (Fqdn E (q_name q))" "key = CacheKey name (q_type q)"
  shows "resolveQuery E c t1 t2 sfDo r =
    (case fst (localGet c t1 key) of
       Some wire \<Rightarrow> ((Some wire, RcodeSuccess), snd (localGet c t1 key))
     | None \<Rightarrow>
         (case sfDo key name (q_type q) of
            Inl err \<Rightarrow> ((None, RcodeServerFailure), snd (localGet c t1 key))
          | Inr resp \<Rightarrow> ((Some (rsp_wire resp), RcodeSuccess),
              localSet E (snd (localGet c t1 key)) t2 key (rsp_wire resp) (rsp_resolved_at resp))))"
  using assms by (cases "localGet c t1 key") (simp add: resolveQuery_def Let_def split: option.splits sum.splits)

text \<open>After a miss the key is gone, so the answer that comes back is stored whatever its version.\<close>

lemma miss_clears: "fst (localGet c t k) = None \<Longrightarrow> c_local (snd (localGet c t k)) k = None"
  by (auto simp: localGet_def localGet_read_def localGet_evict_def split: option.splits if_splits)

section \<open>Properties\<close>

text \<open>
  C7: A stale answer never replaces a fresher one: after any sequence of writes to an empty
  local cache, in any order and from any source, the entry of a key that was written holds
  a message written with the greatest version among all writes to that key.
\<close>

theorem local_cache_keeps_newest:
  assumes "c_local c = Map.empty" and "(k, n, wire, t) \<in> set ws"
  shows "\<exists>e t'. c_local (local_writes E c ws) k = Some e \<and>
    (k, le_resolvedAt e, le_wire e, t') \<in> set ws \<and>
    (\<forall>n' wire' t''. (k, n', wire', t'') \<in> set ws \<longrightarrow> n' \<le> le_resolvedAt e)"
proof -
  have "local_version c k = None" using assms(1) by (simp add: local_version_def)
  from local_store.puts_newest [OF this assms(2), of E] show ?thesis
    by (auto simp: local_writes_puts [symmetric] local_version_def)
qed

text \<open>
  C27: A message stored in the local cache is served unchanged until exactly the least
  positive TTL among its records has passed (the configured fallback when it has none or
  does not parse), and a read after that removes it; no other key is affected.
\<close>

theorem localGet_localSet:
  assumes "\<And>e. c_local c k = Some e \<Longrightarrow> le_resolvedAt e \<le> n"
    and "ttl = (case Unpack E wire of
                  Inl err \<Rightarrow> c_localTTL c
                | Inr m \<Rightarrow> if least_positive (candidate_ttls m) > 0
                          then uint (least_positive (candidate_ttls m)) * second else c_localTTL c)"
  shows "(t \<le> t0 + ttl \<longrightarrow> localGet (localSet E c t0 k wire n) t k = (Some wire, localSet E c t0 k wire n)) \<and>
    (t0 + ttl < t \<longrightarrow> fst (localGet (localSet E c t0 k wire n) t k) = None \<and>
       c_local (snd (localGet (localSet E c t0 k wire n) t k)) k = None) \<and>
    (\<forall>k'. k' \<noteq> k \<longrightarrow> c_local (snd (localGet (localSet E c t0 k wire n) t k)) k' = c_local c k')"
proof -
  have "local_lifetime E c wire = ttl"
    unfolding assms(2) local_lifetime_def
    by (auto simp: MinTTL_fold foldl_consider_zero Let_def seconds_u32 split: sum.splits)
  then have "c_local (localSet E c t0 k wire n) k = Some \<lparr>le_wire = wire, le_expire = t0 + ttl, le_resolvedAt = n\<rparr>"
    using localSet_fresh [of c k n E t0 wire, OF assms(1)] by simp
  then show ?thesis
    by (auto simp: localGet_def localGet_read_def localGet_evict_def localSet_other)
qed

lemma answered_is_local:
  assumes "m_question r = [q]" and "m_question r2 = [q2]" and "q_type q2 = q_type q"
    and "to_lower (Fqdn E (q_name q2)) = to_lower (Fqdn E (q_name q))"
    and "fst (localGet c t1 (CacheKey (to_lower (Fqdn E (q_name q))) (q_type q))) = None"
    and "resolveQuery E c t1 t2 sfDo r = ((Some wire, RcodeSuccess), c')"
    and "t3 \<le> t2 + local_lifetime E c wire"
  shows "resolveQuery E c' t3 t4 sfDo2 r2 = ((Some wire, RcodeSuccess), c')"
proof -
  let ?k = "CacheKey (to_lower (Fqdn E (q_name q))) (q_type q)"
  let ?c = "snd (localGet c t1 ?k)"
  have "\<exists>resp :: response. wire = rsp_wire resp \<and> c' = localSet E ?c t2 ?k (rsp_wire resp) (rsp_resolved_at resp)"
  proof (cases "sfDo ?k (to_lower (Fqdn E (q_name q))) (q_type q)")
    case (Inl err)
    with assms(5,6) resolveQuery_cases [OF assms(1) refl refl, of E c t1 t2 sfDo] show ?thesis by simp
  next
    case (Inr b)
    with assms(5,6) resolveQuery_cases [OF assms(1) refl refl, of E c t1 t2 sfDo] show ?thesis
      by (intro exI [of _ b]) auto
  qed
  then obtain resp :: response where "wire = rsp_wire resp"
    "c' = localSet E ?c t2 ?k (rsp_wire resp) (rsp_resolved_at resp)" by blast
  moreover have "local_lifetime E ?c wire = local_lifetime E c wire"
    by (simp add: local_lifetime_def Let_def split: sum.splits)
  ultimately have e: "c_local c' ?k = Some \<lparr>le_wire = wire, le_expire = t2 + local_lifetime E c wire,
      le_resolvedAt = rsp_resolved_at resp\<rparr>"
    using localSet_fresh [of ?c ?k _ E t2 wire] miss_clears [OF assms(5)] by auto
  then have "localGet c' t3 ?k = (Some wire, c')"
    using assms(7) by (simp add: localGet_def localGet_read_def)
  then show ?thesis
    using resolveQuery_cases [OF assms(2) refl refl, of E c' t3 t4 sfDo2] assms(3,4) by simp
qed

text \<open>
  C26: A query that was answered once is answered locally, with the same bytes and without a
  request, until the message's lifetime in the local cache has passed, however the name is
  spelled in upper and lower case.
\<close>

theorem repeated_query_is_local:
  assumes "m_question r = [q]" and "m_question r2 = [q2]" and "q_type q2 = q_type q"
    and "to_lower (Fqdn E (q_name q2)) = to_lower (Fqdn E (q_name q))"
    and "fst (localGet c t1 (CacheKey (to_lower (Fqdn E (q_name q))) (q_type q))) = None"
    and "resolveQuery E c t1 t2 sfDo r = ((Some wire, RcodeSuccess), c')"
    and "t3 \<le> t2 + local_lifetime E c wire"
  shows "resolveQuery E c' t3 t4 sfDo2 r2 = ((Some wire, RcodeSuccess), c')"
  by (rule answered_is_local [OF assms])

text \<open>
  Every reply of the DNS front end carries the ID of the query it answers; when the
  answer's bytes parse, everything else of the reply is the stored message's, and when
  there is no usable answer the reply is an error made from the query.
\<close>

theorem client_handle_reply:
  assumes "\<And>m. m_id (SetReply E m) = m_id m"
    and "client_handle E c t1 t2 sfDo r = (m, c')"
  shows "m_id m = m_id r \<and>
    ((\<exists>wire stored. fst (resolveQuery E c t1 t2 sfDo r) = (Some wire, RcodeSuccess) \<and>
        Unpack E wire = Inr stored \<and> m = stored\<lparr>m_id := m_id r\<rparr>) \<or>
     m = (SetReply E r)\<lparr>m_rcode := RcodeServerFailure\<rparr> \<or> m = (SetReply E r)\<lparr>m_rcode := RcodeFormatError\<rparr>)"
proof -
  obtain ans c1 where q: "resolveQuery E c t1 t2 sfDo r = (ans, c1)" by fastforce
  have shape: "(\<exists>wire. ans = (Some wire, RcodeSuccess)) \<or> ans = (None, RcodeServerFailure) \<or>
      ans = (None, RcodeFormatError)"
    using q by (auto simp: resolveQuery_def Let_def split: if_splits prod.splits option.splits sum.splits)
  then show ?thesis
    using assms q by (auto simp: client_handle_def reply_def split: sum.splits prod.splits)
qed

text \<open>
  The two DoH methods are equivalent: a GET whose parameter is the unpadded URL-safe
  base64 of a message and a POST of the same message (of at most 64 KiB) give the same
  response and leave the client in the same state.
\<close>

theorem doh_get_post_equivalent:
  assumes "length b \<le> 65536"
  shows "dohHandler E c t1 t2 sfDo \<lparr>h_method = ''GET'', h_dns = rawurl_encode b, h_content_type = ct, h_body = bd\<rparr> =
    dohHandler E c t1 t2 sfDo
      \<lparr>h_method = ''POST'', h_dns = d, h_content_type = ''application/dns-message'', h_body = Body b\<rparr>"
  using assms by (simp add: dohHandler_def doh_decode_def Let_def rawurl_decode_encode)

text \<open>
  The status of a DoH response: 200 with a DNS message exactly when a query was decoded,
  405 for other methods, 415 for a POST with another content type, 400 for everything else
  that does not decode; and a request that is refused leaves the client untouched.
\<close>

theorem doh_status:
  assumes "dohHandler E c t1 t2 sfDo req = (resp, c')"
  shows "(h_status resp = 200 \<longleftrightarrow> (\<exists>m. doh_decode E req = Inr m)) \<and>
    (h_status resp = 200 \<longrightarrow> h_ctype resp = ''application/dns-message'') \<and>
    (h_status resp = 405 \<longleftrightarrow> h_method req \<noteq> ''GET'' \<and> h_method req \<noteq> ''POST'') \<and>
    (h_status resp = 415 \<longleftrightarrow> h_method req = ''POST'' \<and> h_content_type req \<noteq> ''application/dns-message'') \<and>
    (h_status resp \<noteq> 200 \<longrightarrow> c' = c)"
  using assms
  by (auto simp: dohHandler_def doh_decode_def http_Error_def Let_def
      split: sum.splits if_splits option.splits prod.splits http_body.splits)

text \<open>
  The DoH front end does not adapt the message to the query: a cached answer is sent with
  the ID it was stored with, so two queries that differ only in their ID get the same bytes
  (the DNS front end replaces the ID).
\<close>

theorem doh_ignores_query_id:
  assumes "doh_decode E req = Inr m" and "doh_decode E req2 = Inr m2" and "m2 = m\<lparr>m_id := i\<rparr>"
    and "fst (resolveQuery E c t1 t2 sfDo m) = (Some wire, rc)"
  shows "fst (dohHandler E c t1 t2 sfDo req) = fst (dohHandler E c t1 t2 sfDo req2)"
proof -
  have "resolveQuery E c t1 t2 sfDo m2 = resolveQuery E c t1 t2 sfDo m"
    unfolding assms(3) by (simp add: resolveQuery_def)
  moreover obtain c1 where "resolveQuery E c t1 t2 sfDo m = ((Some wire, rc), c1)"
    using assms(4) by (metis prod.collapse)
  ultimately show ?thesis using assms(1,2) by (simp add: dohHandler_def Let_def)
qed

text \<open>
  A pushed update warms the cache: once the subscriber has processed an update with a
  message and a version no older than the cached one, a query for its name and type is
  answered from it, without a request, until it expires.
\<close>

theorem update_warms_cache:
  assumes "wf_update u" and "upd_wire u \<noteq> []"
    and "\<And>e. c_local c (CacheKey (upd_name u) (upd_type u)) = Some e \<Longrightarrow> le_resolvedAt e \<le> upd_resolved_at u"
    and "c' = runSubscriber E c [SubMsg (marshal_update u) t0]"
    and "m_question r = [q]" and "to_lower (Fqdn E (q_name q)) = upd_name u" and "q_type q = upd_type u"
    and "t \<le> t0 + local_lifetime E c (upd_wire u)"
  shows "resolveQuery E c' t t2 sfDo r = ((Some (upd_wire u), RcodeSuccess), c')"
proof -
  let ?k = "CacheKey (upd_name u) (upd_type u)"
  have "c' = localSet E c t0 ?k (upd_wire u) (upd_resolved_at u)"
    using assms(1,2,4) by (simp add: warm_def unmarshal_marshal_update)
  then have "c_local c' ?k = Some \<lparr>le_wire = upd_wire u, le_expire = t0 + local_lifetime E c (upd_wire u),
      le_resolvedAt = upd_resolved_at u\<rparr>"
    using localSet_fresh [of c ?k "upd_resolved_at u" E t0 "upd_wire u", OF assms(3)] by simp
  then have "localGet c' t ?k = (Some (upd_wire u), c')"
    using assms(8) by (simp add: localGet_def localGet_read_def)
  then show ?thesis
    using resolveQuery_cases [OF assms(5) refl refl, of E c' t t2 sfDo] assms(6,7) by simp
qed

text \<open>
  Swapping the Redis backend leaves nothing of the old backend's answers in the local
  cache: the first query of any name after the swap goes to the new backend.
\<close>

theorem SwapRedis_forgets:
  assumes "SwapRedis c rdb = (c', old)"
  shows "c_rdb c' = rdb \<and> old = c_rdb c \<and> (\<forall>t k. localGet c' t k = (None, c'))"
  using assms by (auto simp: SwapRedis_def localGet_def localGet_read_def)

text \<open>
  The two windows the locks leave open.  A reader that found an expired entry deletes the
  key even if a fresh answer was stored in between; and an answer of the old backend that
  was still in flight during a swap is stored after it.
\<close>

lemma localGet_window_drops_fresh:
  assumes "localGet_read c t k = (None, True)"
  shows "c_local (localGet_evict (localSet E c t2 k wire n) k) k = None"
  by (simp add: localGet_evict_def)

lemma SwapRedis_window_keeps_old:
  "c_local (localSet E (fst (SwapRedis c rdb)) t k wire n) k \<noteq> None"
  by (simp add: SwapRedis_def localSet_def Let_def)

section \<open>Witnesses\<close>

text \<open>A DNS library whose only wire message is the two-address answer.\<close>

definition dns_env :: "unit env" where
  "dns_env = stub_env\<lparr>Unpack := \<lambda>b. if b = ''wire'' then Inr two_ip_msg else Inl ''bad message'',
     SetReply := \<lambda>m. m\<lparr>m_response := True, m_answer := []\<rparr>\<rparr>"

definition toy_client :: Client where
  "toy_client = Client_New (redisx_New ''127.0.0.1:6379'' [] [] 0 8 False []) 0 0"

definition toy_query :: dns_msg where
  "toy_query = two_ip_msg\<lparr>m_id := 99, m_response := False, m_answer := [],
     m_question := [\<lparr>q_name = ''Example.COM'', q_type = 1, q_class = 1\<rparr>]\<rparr>"

abbreviation answered :: "string \<Rightarrow> string \<Rightarrow> u16 \<Rightarrow> string + response" where
  "answered \<equiv> \<lambda>k n t. Inr (toy_response\<lparr>rsp_resolved_at := 500\<rparr>)"

lemma toy_client_fields [simp]: "c_local toy_client = Map.empty" "c_localTTL toy_client = 300 * second"
  by (simp_all add: toy_client_def Client_New_def Let_def)

lemma toy_query_fields [simp]: "m_question toy_query = [\<lparr>q_name = ''Example.COM'', q_type = 1, q_class = 1\<rparr>]"
  "m_id toy_query = 99"
  by (simp_all add: toy_query_def)

lemma dns_env_names [simp]:
  "Fqdn dns_env ''Example.COM'' = ''Example.COM.''" "Fqdn dns_env ''example.com'' = ''example.com.''"
  by (simp_all add: dns_env_def stub_env_def)

lemma lower_names [simp]:
  "to_lower ''Example.COM.'' = ''example.com.''" "to_lower ''example.com.'' = ''example.com.''"
  by code_simp+

lemma dns_env_wire: "local_lifetime dns_env toy_client ''wire'' = 300 * second"
proof -
  have "MinTTL two_ip_msg = 300" by code_simp
  then show ?thesis
    by (simp add: local_lifetime_def dns_env_def dur_mul_def wrap64_id in_int64_def second_def)
qed

lemma toy_miss: "fst (localGet toy_client t k) = None"
  by (simp add: localGet_def localGet_read_def)

lemma toy_answer:
  "fst (resolveQuery dns_env toy_client 1000 1000 answered toy_query) = (Some ''wire'', RcodeSuccess)"
  by (simp add: resolveQuery_cases [OF toy_query_fields(1) refl refl] toy_miss)

theorem local_cache_keeps_newest_witness:
  "\<exists>e t' :: int. c_local (local_writes dns_env toy_client [(''k'', 5, ''new'', 10), (''k'', 3, ''old'', 20)]) ''k'' = Some e \<and>
    (''k'', le_resolvedAt e, le_wire e, t') \<in> set [(''k'', 5, ''new'', 10), (''k'', 3, ''old'', 20)] \<and>
    (\<forall>n' wire' (t'' :: int). (''k'', n', wire', t'') \<in> set [(''k'', 5, ''new'', 10), (''k'', 3, ''old'', 20)] \<longrightarrow>
       n' \<le> le_resolvedAt e)"
  by (rule local_cache_keeps_newest [where n = 3 and wire = "''old''" and t = 20]) simp_all

theorem localGet_localSet_witness:
  "localGet (localSet dns_env toy_client 0 ''k'' ''junk'' 7) (300 * second) ''k'' =
     (Some ''junk'', localSet dns_env toy_client 0 ''k'' ''junk'' 7)"
  using localGet_localSet [of toy_client "''k''" 7 "300 * second" dns_env "''junk''" "300 * second" 0]
  by (simp add: dns_env_def)

theorem repeated_query_is_local_witness:
  "resolveQuery dns_env (snd (resolveQuery dns_env toy_client 1000 1000 answered toy_query)) 2000 2000
     (\<lambda>k n t. Inl ''not asked'')
     (toy_query\<lparr>m_question := [\<lparr>q_name = ''example.com'', q_type = 1, q_class = 1\<rparr>]\<rparr>) =
   ((Some ''wire'', RcodeSuccess), snd (resolveQuery dns_env toy_client 1000 1000 answered toy_query))"
proof (rule repeated_query_is_local [where c = toy_client and ?t1.0 = 1000 and ?t2.0 = 1000 and
      sfDo = answered and r = toy_query and q = "\<lparr>q_name = ''Example.COM'', q_type = 1, q_class = 1\<rparr>" and
      ?q2.0 = "\<lparr>q_name = ''example.com'', q_type = 1, q_class = 1\<rparr>"])
  show "resolveQuery dns_env toy_client 1000 1000 answered toy_query =
      ((Some ''wire'', RcodeSuccess), snd (resolveQuery dns_env toy_client 1000 1000 answered toy_query))"
    using toy_answer by (simp add: prod_eq_iff)
qed (simp_all add: toy_miss dns_env_wire second_def)

theorem client_handle_reply_witness:
  "m_id (fst (client_handle dns_env toy_client 1000 1000 answered toy_query)) = 99"
  using client_handle_reply [of dns_env toy_client 1000 1000 answered toy_query, OF _ prod.collapse [symmetric]]
  by (simp add: dns_env_def)

theorem doh_get_post_equivalent_witness:
  "dohHandler dns_env toy_client 0 0 answered
      \<lparr>h_method = ''GET'', h_dns = rawurl_encode ''wire'', h_content_type = [], h_body = ReadError\<rparr> =
   dohHandler dns_env toy_client 0 0 answered
      \<lparr>h_method = ''POST'', h_dns = [], h_content_type = ''application/dns-message'', h_body = Body ''wire''\<rparr>"
  by (rule doh_get_post_equivalent) simp

theorem doh_status_witness:
  "h_status (fst (dohHandler dns_env toy_client 0 0 answered
     \<lparr>h_method = ''PUT'', h_dns = [], h_content_type = [], h_body = ReadError\<rparr>)) = 405"
  using doh_status [OF prod.collapse [symmetric], of dns_env toy_client 0 0 answered
      "\<lparr>h_method = ''PUT'', h_dns = [], h_content_type = [], h_body = ReadError\<rparr>"] by simp

definition doh_env :: "unit env" where
  "doh_env = dns_env\<lparr>Unpack := \<lambda>b. if b = ''q1'' then Inr toy_query else Inr (toy_query\<lparr>m_id := 5\<rparr>)\<rparr>"

theorem doh_ignores_query_id_witness:
  "fst (dohHandler doh_env toy_client 0 0 answered
      \<lparr>h_method = ''POST'', h_dns = [], h_content_type = ''application/dns-message'', h_body = Body ''q1''\<rparr>) =
   fst (dohHandler doh_env toy_client 0 0 answered
      \<lparr>h_method = ''POST'', h_dns = [], h_content_type = ''application/dns-message'', h_body = Body ''q2''\<rparr>)"
proof (rule doh_ignores_query_id [where i = 5 and m = toy_query and wire = "''wire''" and rc = RcodeSuccess])
  show "fst (resolveQuery doh_env toy_client 0 0 answered toy_query) = (Some ''wire'', RcodeSuccess)"
    by (simp add: resolveQuery_cases [OF toy_query_fields(1) refl refl] toy_miss)
qed (simp_all add: doh_decode_def doh_env_def)

theorem update_warms_cache_witness:
  "let u = \<lparr>upd_name = ''example.com.'', upd_type = 1, upd_rcode = 0, upd_resolved_at = 9, upd_wire = ''wire''\<rparr>;
       c' = runSubscriber dns_env toy_client [SubMsg (marshal_update u) 1000]
   in resolveQuery dns_env c' 2000 2000 (\<lambda>k n t. Inl ''not asked'') toy_query = ((Some (upd_wire u), RcodeSuccess), c')"
  unfolding Let_def
  by (rule update_warms_cache [where c = toy_client and ?t0.0 = 1000 and
        q = "\<lparr>q_name = ''Example.COM'', q_type = 1, q_class = 1\<rparr>"])
     (simp_all add: wf_update_def valid_utf8_ascii in_int64_def dns_env_wire second_def)

theorem SwapRedis_forgets_witness:
  "\<forall>t k. localGet (fst (SwapRedis (localSet dns_env toy_client 0 ''k'' ''wire'' 7) (c_rdb toy_client))) t k =
     (None, fst (SwapRedis (localSet dns_env toy_client 0 ''k'' ''wire'' 7) (c_rdb toy_client)))"
  using SwapRedis_forgets [OF prod.collapse [symmetric], of "localSet dns_env toy_client 0 ''k'' ''wire'' 7" "c_rdb toy_client"]
  by blast

end
