(* ===== verification/Provenance.thy ===== *)
theory Provenance
  imports Server Client
begin

text \<open>
  Where the answers come from.  \<open>genuine E r name qtype wire\<close> says that \<open>wire\<close> is a packed
  answer of the upstream to a question for this very name and type, whole or narrowed to one
  of its addresses.  The invariant \<open>wsound\<close> of the server's world says that everything cached,
  broadcast or sent is genuine for the key or the payload it is filed under; a small Hoare
  logic for the state monad (\<open>keeps\<close>) shows that the server's code preserves it.
\<close>

section \<open>Triples with a fixed invariant\<close>

text \<open>Running \<open>m\<close> preserves \<open>I\<close>, and its result satisfies \<open>Q\<close>.\<close>

definition keeps :: "('r world \<Rightarrow> bool) \<Rightarrow> ('r, 'a) io \<Rightarrow> ('a \<Rightarrow> bool) \<Rightarrow> bool" where
  "keeps I m Q \<longleftrightarrow> (\<forall>w. I w \<longrightarrow> I (snd (run_state m w)) \<and> Q (fst (run_state m w)))"

abbreviation any :: "'a \<Rightarrow> bool" where "any \<equiv> \<lambda>_. True"

named_theorems keeps_rules

lemma keepsD: "keeps I m Q \<Longrightarrow> run_state m w = (a, w') \<Longrightarrow> I w \<Longrightarrow> I w' \<and> Q a"
  by (auto simp: keeps_def)

lemma keeps_ret: "Q a \<Longrightarrow> keeps I (ret a) Q"
  by (simp add: keeps_def)

lemma keeps_bind:
  assumes "keeps I m R" "\<And>a. R a \<Longrightarrow> keeps I (f a) Q"
  shows "keeps I (State_Monad.bind m f) Q"
  using assms by (auto simp: keeps_def split: prod.splits)

lemma keeps_weaken: "keeps I m R \<Longrightarrow> (\<And>a. R a \<Longrightarrow> Q a) \<Longrightarrow> keeps I m Q"
  by (auto simp: keeps_def)

lemma keeps_bind_any [keeps_rules]:
  "keeps I m any \<Longrightarrow> (\<And>a. keeps I (f a) Q) \<Longrightarrow> keeps I (State_Monad.bind m f) Q"
  by (rule keeps_bind)

lemma keeps_ret_any [keeps_rules]: "keeps I (ret a) any"
  by (simp add: keeps_ret)

lemma keeps_case [keeps_rules]:
  "\<lbrakk>b \<Longrightarrow> keeps I m Q; \<not> b \<Longrightarrow> keeps I n Q\<rbrakk> \<Longrightarrow> keeps I (if b then m else n) Q"
  "\<lbrakk>v = None \<Longrightarrow> keeps I m Q; \<And>x. v = Some x \<Longrightarrow> keeps I (fo x) Q\<rbrakk> \<Longrightarrow>
   keeps I (case v of None \<Rightarrow> m | Some x \<Rightarrow> fo x) Q"
  "\<lbrakk>\<And>x. u = Inl x \<Longrightarrow> keeps I (fl x) Q; \<And>x. u = Inr x \<Longrightarrow> keeps I (fr x) Q\<rbrakk> \<Longrightarrow>
   keeps I (case u of Inl x \<Rightarrow> fl x | Inr x \<Rightarrow> fr x) Q"
  "(\<And>x y. p = (x, y) \<Longrightarrow> keeps I (fp x y) Q) \<Longrightarrow> keeps I (case p of (x, y) \<Rightarrow> fp x y) Q"
  "(\<And>x. x = a \<Longrightarrow> keeps I (f x) Q) \<Longrightarrow> keeps I (Let a f) Q"
  by (auto split: option.splits sum.splits prod.splits)

lemma keeps_reply [keeps_rules]:
  "\<lbrakk>\<And>e. keeps I (f1 e) Q; keeps I f2 Q; keeps I f3 Q; \<And>b. keeps I (f4 b) Q; \<And>h. keeps I (f5 h) Q;
    \<And>z. keeps I (f6 z) Q; \<And>ms. keeps I (f7 ms) Q\<rbrakk> \<Longrightarrow>
   keeps I (case v of RErr e \<Rightarrow> f1 e | RNil \<Rightarrow> f2 | ROk \<Rightarrow> f3 | RBytes b \<Rightarrow> f4 b
     | RHash h \<Rightarrow> f5 h | RScored z \<Rightarrow> f6 z | RMessages ms \<Rightarrow> f7 ms) Q"
  by (cases v) simp_all

lemma keeps_foldM [keeps_rules]: "(\<And>a x. keeps I (f a x) any) \<Longrightarrow> keeps I (foldM f a xs) any"
  by (induction xs arbitrary: a) (auto intro!: keeps_rules)

section \<open>Payloads as they are received\<close>

lemma to_utf8_Nil [simp]: "to_utf8 s = [] \<longleftrightarrow> s = []"
  by (subst to_utf8.simps) (simp add: replacement_def)

abbreviation ascii :: "string \<Rightarrow> bool" where
  "ascii s \<equiv> list_all (\<lambda>c. ord c < (128 :: nat)) s"

lemma to_utf8_ascii: "ascii s \<Longrightarrow> to_utf8 s = s"
  by (simp add: to_utf8_valid valid_utf8_ascii)

text \<open>The coercion invents no ASCII text: a string that comes out as ASCII went in as such.\<close>

lemma to_utf8_to_ascii: "ascii (to_utf8 s) \<Longrightarrow> to_utf8 s = s"
proof (induction s rule: to_utf8.induct)
  case (1 s)
  show ?case
  proof (cases "s = [] \<or> rune_size s = 0")
    case True
    with "1.prems" show ?thesis
      by (subst to_utf8.simps, subst (asm) (2) to_utf8.simps)
         (auto simp: replacement_def split: if_splits)
  next
    case False
    then have s: "to_utf8 s = take (rune_size s) s @ to_utf8 (drop (rune_size s) s)"
      by (subst to_utf8.simps) simp
    with "1.IH"(2) False "1.prems" show ?thesis by simp
  qed
qed

text \<open>The first sequence of a string is decided by its own bytes, so the coercion is idempotent.\<close>

lemma rune_size_cases:
  assumes "rune_size s = k" "0 < k"
  obtains "k = 1" "ord (hd s) < (128 :: nat)"
  | "k = 2" "194 \<le> ord (hd s)" "ord (hd s) \<le> (223 :: nat)" "byte_in 128 191 s 1"
  | "k = 3" "ord (hd s) = (224 :: nat)" "byte_in 160 191 s 1" "byte_in 128 191 s 2"
  | "k = 3" "ord (hd s) = (237 :: nat)" "byte_in 128 159 s 1" "byte_in 128 191 s 2"
  | "k = 3" "225 \<le> ord (hd s)" "ord (hd s) \<le> (239 :: nat)" "ord (hd s) \<noteq> (237 :: nat)"
      "byte_in 128 191 s 1" "byte_in 128 191 s 2"
  | "k = 4" "ord (hd s) = (240 :: nat)" "byte_in 144 191 s 1" "byte_in 128 191 s 2" "byte_in 128 191 s 3"
  | "k = 4" "241 \<le> ord (hd s)" "ord (hd s) \<le> (243 :: nat)"
      "byte_in 128 191 s 1" "byte_in 128 191 s 2" "byte_in 128 191 s 3"
  | "k = 4" "ord (hd s) = (244 :: nat)" "byte_in 128 143 s 1" "byte_in 128 191 s 2" "byte_in 128 191 s 3"
  using assms unfolding rune_size_def Let_def by (simp only: split: if_splits) blast+

lemma rune_size_prefix:
  assumes "rune_size s = k" "0 < k"
  shows "rune_size (take k s @ t) = k" and "k \<le> length s"
proof -
  have s: "s \<noteq> []" using assms by (auto simp: rune_size_def)
  show len: "k \<le> length s"
    using assms s by (cases rule: rune_size_cases) (simp_all add: byte_in_def Suc_le_eq)
  have bytes: "byte_in lo hi (take k s @ t) i = byte_in lo hi s i" if "i < k" for lo hi i
    using len that by (auto simp: byte_in_def nth_append)
  have h: "take k s @ t \<noteq> []" "hd (take k s @ t) = hd s" using s assms(2) by (simp_all add: hd_append)
  from assms show "rune_size (take k s @ t) = k"
    by (cases rule: rune_size_cases) (use bytes h in \<open>simp_all add: rune_size_def Let_def\<close>)
qed

lemma valid_utf8_append:
  "rune_size s = k \<Longrightarrow> 0 < k \<Longrightarrow> valid_utf8 t \<Longrightarrow> valid_utf8 (take k s @ t)"
  using rune_size_prefix(1) [of s k t] rune_size_prefix(2) [of s k] by (subst valid_utf8.simps) simp

lemma valid_to_utf8: "valid_utf8 (to_utf8 s)"
proof (induction s rule: to_utf8.induct)
  case (1 s)
  have "rune_size replacement = 3" by (simp add: rune_size_def byte_in_def replacement_def)
  then have "valid_utf8 t \<Longrightarrow> valid_utf8 (replacement @ t)" for t
    using valid_utf8_append [of replacement 3 t] by (simp add: replacement_def)
  with 1 show ?case
    by (subst to_utf8.simps) (auto simp: valid_utf8_append)
qed

lemma to_utf8_idem [simp]: "to_utf8 (to_utf8 s) = to_utf8 s"
  by (simp add: to_utf8_valid valid_to_utf8)

lemma to_utf8_eq_ascii: "to_utf8 s = to_utf8 a \<Longrightarrow> ascii a \<Longrightarrow> s = a"
  using to_utf8_to_ascii [of s] by (simp add: to_utf8_ascii)

lemma received_request:
  "unmarshal_request (marshal_request r) =
     Some \<lparr>req_id = to_utf8 (req_id r), req_name = to_utf8 (req_name r), req_type = req_type r\<rparr>"
  by (simp add: unmarshal_request_def marshal_request_def set_request_field_def zero_request_def j_str_def)

lemma received_response:
  assumes "unmarshal_response (marshal_response r) = Some x"
  shows "rsp_id x = to_utf8 (rsp_id r) \<and> rsp_name x = to_utf8 (rsp_name r) \<and> rsp_type x = rsp_type r \<and>
    rsp_wire x = rsp_wire r \<and> rsp_resolved_at x = rsp_resolved_at r \<and> (rsp_err x = [] \<longleftrightarrow> rsp_err r = [])"
  using assms
  by (auto simp: unmarshal_response_def marshal_response_def set_response_field_def zero_response_def
      omit_wire_def omit_err_def j_str_def split: if_splits)

lemma received_update:
  assumes "unmarshal_update (marshal_update u) = Some x"
  shows "upd_name x = to_utf8 (upd_name u) \<and> upd_type x = upd_type u \<and> upd_wire x = upd_wire u \<and>
    upd_resolved_at x = upd_resolved_at u"
  using assms
  by (auto simp: unmarshal_update_def marshal_update_def set_update_field_def zero_update_def
      omit_wire_def j_str_def split: if_splits)

section \<open>Genuine answers\<close>

definition resolved :: "'r env \<Rightarrow> 'r Resolver \<Rightarrow> string \<Rightarrow> u16 \<Rightarrow> dns_msg \<Rightarrow> bool" where
  "resolved E r name qtype out \<longleftrightarrow>
     (\<exists>n resp. Exchange E n (r_network r) (r_timeout r)
          ((SetQuestion E n (Fqdn E name) qtype)\<lparr>m_recursion_desired := True\<rparr>) (r_upstream r) = Inr resp \<and>
        (out = resp \<or> (\<exists>p. ipIn (answerIPs resp qtype) p \<and> out = narrow resp qtype p)))"

definition genuine :: "'r env \<Rightarrow> 'r Resolver \<Rightarrow> string \<Rightarrow> u16 \<Rightarrow> bytes \<Rightarrow> bool" where
  "genuine E r name qtype wire \<longleftrightarrow> (\<exists>out. resolved E r name qtype out \<and> Pack E out = Inr wire)"

text \<open>
  What a command may say: a cached message is genuine for the key's name and type, a broadcast
  and a response for the name and type they carry, and the ID of a response is one of \<open>iss\<close>.
\<close>

definition sound_response ::
  "'r env \<Rightarrow> 'r Resolver \<Rightarrow> (string \<Rightarrow> string \<Rightarrow> u16 \<Rightarrow> bool) \<Rightarrow> response \<Rightarrow> bool" where
  "sound_response E r iss x \<longleftrightarrow>
     iss (rsp_id x) (rsp_name x) (rsp_type x) \<and>
     (rsp_err x = [] \<longrightarrow> rsp_wire x \<noteq> [] \<longrightarrow> genuine E r (rsp_name x) (rsp_type x) (rsp_wire x))"

definition sound_cmd ::
  "'r env \<Rightarrow> 'r Resolver \<Rightarrow> (string \<Rightarrow> string \<Rightarrow> u16 \<Rightarrow> bool) \<Rightarrow> redis_cmd \<Rightarrow> bool" where
  "sound_cmd E r iss c =
     (case c of
        SET k v d \<Rightarrow> \<forall>n q. k = CacheKey n q \<longrightarrow> 0 < d \<and> genuine E r n q v
      | EXPIRE k d \<Rightarrow> \<forall>n q. k \<noteq> CacheKey n q
      | ZUNIONSTORE k srcs \<Rightarrow> \<forall>n q. k \<noteq> CacheKey n q
      | PUBLISH k p \<Rightarrow> \<exists>u. p = marshal_update u \<and> genuine E r (upd_name u) (upd_type u) (upd_wire u)
      | XADD k l p \<Rightarrow> k = StreamResponses \<longrightarrow> (\<exists>x. p = marshal_response x \<and> sound_response E r iss x)
      | _ \<Rightarrow> True)"

definition wsound ::
  "'r env \<Rightarrow> 'r Resolver \<Rightarrow> ('r \<Rightarrow> timestamp \<Rightarrow> string \<Rightarrow> bytes option) \<Rightarrow>
   (string \<Rightarrow> string \<Rightarrow> u16 \<Rightarrow> bool) \<Rightarrow> 'r world \<Rightarrow> bool" where
  "wsound E r str_at iss w \<longleftrightarrow>
     (\<forall>n q t wire. clock E (ticks w) \<le> t \<longrightarrow> str_at (store w) t (CacheKey n q) = Some wire \<longrightarrow>
        genuine E r n q wire) \<and>
     (\<forall>c \<in> set (cmds w). sound_cmd E r iss c)"

lemma sound_cmd_mono:
  assumes "sound_cmd E r iss c" "\<And>i n q. iss i n q \<Longrightarrow> iss' i n q"
  shows "sound_cmd E r iss' c"
proof (cases c)
  case (XADD k l p)
  have "sound_response E r iss x \<Longrightarrow> sound_response E r iss' x" for x
    using assms(2) by (simp add: sound_response_def)
  with assms(1) show ?thesis unfolding sound_cmd_def XADD redis_cmd.case by blast
qed (use assms(1) in \<open>auto simp: sound_cmd_def\<close>)

lemma wsound_mono:
  "wsound E r str_at iss w \<Longrightarrow> (\<And>i n q. iss i n q \<Longrightarrow> iss' i n q) \<Longrightarrow> wsound E r str_at iss' w"
  unfolding wsound_def using sound_cmd_mono [where iss = iss and iss' = iss'] by blast

lemma wsound_later:
  "mono (clock E) \<Longrightarrow> wsound E r str_at iss w \<Longrightarrow> ticks w \<le> n \<Longrightarrow> wsound E r str_at iss (w\<lparr>ticks := n\<rparr>)"
  using order_trans [OF monoD [of "clock E" "ticks w" n]] by (simp add: wsound_def) blast

lemma wsound_queue [simp]: "wsound E r str_at iss (w\<lparr>countCh := ch\<rparr>) = wsound E r str_at iss w"
  by (simp add: wsound_def)

text \<open>What \<open>Resolve\<close> returns was resolved.\<close>

lemma Resolve_resolved:
  assumes "\<And>rc. r_race r = Some rc \<Longrightarrow> honest_probes E rc"
    and "run_state (Resolve E r name qtype) w = (Inr out, w')"
  shows "resolved E r name qtype out"
proof -
  let ?m = "(SetQuestion E (ticks w) (Fqdn E name) qtype)\<lparr>m_recursion_desired := True\<rparr>"
  obtain resp where X: "Exchange E (ticks w) (r_network r) (r_timeout r) ?m (r_upstream r) = Inr resp"
    using assms(2) by (auto simp: Resolve_def Let_def split: sum.splits)
  show ?thesis
  proof (cases "r_race r")
    case None
    with assms(2) X have "out = resp" by (simp add: Resolve_def Let_def)
    with X show ?thesis unfolding resolved_def by blast
  next
    case (Some rc)
    with assms(2) X obtain v where "run_state (applyRace E r rc resp qtype) v = (out, w')"
      by (auto simp: Resolve_def Let_def split: prod.splits)
    from applyRace_outcome [OF assms(1) [OF Some] this] X show ?thesis
      unfolding resolved_def by blast
  qed
qed

section \<open>The server preserves soundness\<close>

lemma prefix_disjoint: "has_prefix k ''dns:pref:'' \<Longrightarrow> k \<noteq> CacheKey n q"
  by (auto simp: has_prefix_iff CacheKey_def PrefixCache_def)

lemma CacheKey_not_counts: "SetQueryCounts \<noteq> CacheKey n q"
  by (simp add: SetQueryCounts_def CacheKey_def PrefixCache_def)

lemma pref_cmd_sound: "pref_cmd c \<Longrightarrow> sound_cmd E r iss c"
  by (auto simp: pref_cmd_def sound_cmd_def prefix_disjoint)

context redis_strings
begin

lemma keeps_call:
  assumes "mono (clock E)" "sound_cmd E r iss c"
  shows "keeps (wsound E r str_at iss) (call E c) any"
  unfolding keeps_def
proof (intro allI impI conjI TrueI)
  fix w
  assume w: "wsound E r str_at iss w"
  let ?w' = "snd (run_state (call E c) w)"
  have tk: "ticks ?w' = Suc (ticks w)" by (simp split: prod.splits)
  have "genuine E r n q wire"
    if t: "clock E (ticks ?w') \<le> t" and s: "str_at (store ?w') t (CacheKey n q) = Some wire" for n q t wire
  proof -
    have now: "clock E (ticks w) \<le> t"
      using t monoD [OF assms(1), of "ticks w" "ticks ?w'"] tk by simp
    show ?thesis
    proof (cases "touches c (CacheKey n q)")
      case False
      with s now have "str_at (store w) t (CacheKey n q) = Some wire"
        by (simp add: call_snd(1) strings_frame del: run_call)
      with w now show ?thesis unfolding wsound_def by blast
    next
      case True
      with assms(2) obtain v d where c: "c = SET (CacheKey n q) v d" "0 < d" "genuine E r n q v"
        by (cases c) (auto simp: sound_cmd_def)
      from s have "wire = v"
        unfolding c(1) using cached_until [OF c(2) now] by (simp del: run_call split: if_splits)
      with c(3) show ?thesis by simp
    qed
  qed
  with w assms(2) show "wsound E r str_at iss ?w'"
    unfolding wsound_def by (auto simp: call_snd(2) simp del: run_call)
qed

lemma keeps_tick: "mono (clock E) \<Longrightarrow> keeps (wsound E r str_at iss) tick any"
  and keeps_now: "mono (clock E) \<Longrightarrow> keeps (wsound E r str_at iss) (now E) any"
  by (auto simp: keeps_def wsound_later)

lemma keeps_pipeline:
  "mono (clock E) \<Longrightarrow> list_all (sound_cmd E r iss) cs \<Longrightarrow> keeps (wsound E r str_at iss) (pipeline E cs) any"
  by (induction cs) (auto intro!: keeps_rules keeps_call)

lemma keeps_GET:
  assumes "mono (clock E)"
  shows "keeps (wsound E r str_at iss) (call E (GET (CacheKey n q)))
    (\<lambda>rep. \<forall>wire. rep = RBytes wire \<longrightarrow> genuine E r n q wire)"
proof -
  have "genuine E r n q wire"
    if w: "wsound E r str_at iss w" and rep: "fst (run_state (call E (GET (CacheKey n q))) w) = RBytes wire" for w wire
  proof -
    have "str_at (store w) (clock E (ticks w)) (CacheKey n q) = Some wire"
      using rep get_reply [of "clock E (ticks w)" "CacheKey n q" "store w"]
      by (auto split: prod.splits option.splits)
    with w show ?thesis unfolding wsound_def by blast
  qed
  moreover have "keeps (wsound E r str_at iss) (call E (GET (CacheKey n q))) any"
    using assms by (rule keeps_call) (simp add: sound_cmd_def)
  ultimately show ?thesis unfolding keeps_def by blast
qed

lemmas keeps_base = keeps_rules keeps_tick keeps_now

text \<open>The preference cache touches its own keys only.\<close>

lemma keeps_redis_backend:
  assumes "mono (clock E)"
  shows "keeps (wsound E r str_at iss) (redis_LoadPref E (prefKey E n q)) any"
    and "keeps (wsound E r str_at iss) (redis_StorePref E (prefKey E n q) e ttl) any"
    and "keeps (wsound E r str_at iss) (redis_BumpPref E (prefKey E n q)) any"
  unfolding redis_LoadPref_def redis_StorePref_def redis_BumpPref_def
  using assms by (auto intro!: keeps_base keeps_call keeps_pipeline simp: pref_cmd_sound pref_cmdI prefKey_prefix)

lemma keeps_pref:
  assumes "mono (clock E)" "redis_backed E r"
  shows "keeps (wsound E r' str_at iss) (applyPref E (r_pref r) msg qtype name ips) any"
    and "keeps (wsound E r' str_at iss) (storePref E (r_pref r) name qtype p via rtt) any"
proof -
  have b: "r_pref r = Some ps \<Longrightarrow> ps_backend ps = NewRedisPrefBackend E" for ps
    using assms(2) by (simp add: redis_backed_def)
  show "keeps (wsound E r' str_at iss) (applyPref E (r_pref r) msg qtype name ips) any"
    by (cases "r_pref r")
       (auto simp: applyPref_def b NewRedisPrefBackend_def intro!: keeps_base keeps_redis_backend assms
         split: option.splits)
  show "keeps (wsound E r' str_at iss) (storePref E (r_pref r) name qtype p via rtt) any"
    by (cases "r_pref r")
       (auto simp: storePref_def b NewRedisPrefBackend_def intro!: keeps_base keeps_redis_backend assms)
qed

lemma keeps_Resolve:
  assumes "mono (clock E)" "redis_backed E r" "\<And>rc. r_race r = Some rc \<Longrightarrow> honest_probes E rc"
  shows "keeps (wsound E r' str_at iss) (Resolve E r name qtype)
    (\<lambda>res. \<forall>out. res = Inr out \<longrightarrow> resolved E r name qtype out)"
proof -
  have "keeps (wsound E r' str_at iss) (Resolve E r name qtype) any"
    unfolding Resolve_def applyRace_def by (intro keeps_base keeps_pref assms)
  moreover have "resolved E r name qtype out" if "fst (run_state (Resolve E r name qtype) w) = Inr out" for w out
    using Resolve_resolved [OF assms(3)] that by (metis prod.collapse)
  ultimately show ?thesis unfolding keeps_def by blast
qed

lemma keeps_cache:
  assumes "mono (clock E)" "genuine E r name qtype wire"
  shows "keeps (wsound E r str_at iss) (cache E s name qtype wire answer) any"
proof (cases "(if m_rcode answer = RcodeNameError then s_negTTL s else s_cacheTTL s) \<le> 0")
  case True
  then show ?thesis by (simp add: cache_def keeps_rules)
next
  case False
  then have "0 < cache_lifetime s answer" using cache_lifetime_bounds(2) [OF refl, of answer s] by linarith
  with assms(2) have "sound_cmd E r iss (SET (CacheKey name qtype) wire (cache_lifetime s answer))"
    by (auto simp: sound_cmd_def dest: cache_keys.key_inj [rotated 2])
  with False assms(1) show ?thesis unfolding cache_def Let_def by (auto intro!: keeps_base keeps_call)
qed

lemma keeps_publish:
  assumes "mono (clock E)" "genuine E r name qtype wire"
  shows "keeps (wsound E r str_at iss) (publish E name qtype wire answer t) any"
  unfolding publish_def
  by (intro keeps_base keeps_call assms, unfold sound_cmd_def redis_cmd.case, rule exI, rule conjI [OF refl])
     (simp add: assms)

text \<open>Resolve, pack and go on, as the handler and both prefetch paths do it.\<close>

lemmas keeps_server = keeps_base keeps_call keeps_pipeline keeps_cache keeps_publish

lemma keeps_refresh:
  assumes "mono (clock E)" "redis_backed E r" "\<And>rc. r_race r = Some rc \<Longrightarrow> honest_probes E rc"
    and "\<And>err. keeps (wsound E r str_at iss) (fl err) Q" "\<And>answer err. keeps (wsound E r str_at iss) (fe answer err) Q"
    and "\<And>answer wire. genuine E r name qtype wire \<Longrightarrow> resolved E r name qtype answer \<Longrightarrow> Pack E answer = Inr wire \<Longrightarrow>
      keeps (wsound E r str_at iss) (k answer wire) Q"
  shows "keeps (wsound E r str_at iss)
    (do { result \<leftarrow> Resolve E r name qtype;
          case result of
            Inl err \<Rightarrow> fl err
          | Inr answer \<Rightarrow> (case Pack E answer of Inl err \<Rightarrow> fe answer err | Inr wire \<Rightarrow> k answer wire) }) Q"
  by (rule keeps_bind [OF keeps_Resolve [OF assms(1-3)]])
     (auto split: sum.splits simp: genuine_def intro!: assms(4-6))

lemma keeps_rank:
  assumes "mono (clock E)"
  shows "keeps (wsound E r str_at iss) (redis_Top E n lo) any" "keeps (wsound E r str_at iss) (redis_Decay E f) any"
  unfolding redis_Top_def redis_Decay_def
  using assms by (auto intro!: keeps_server simp: sound_cmd_def CacheKey_not_counts)

end

end
