(* ===== verification/Sweep.thy ===== *)
theory Sweep
  imports Provenance
begin

text \<open>
  The prefetch goroutine of \<open>server.go\<close> cut at its Redis commands, so that handlers and clients
  can get in between: \<open>sweep_step\<close> takes the goroutine from one such point to the next, and
  \<open>sweep_in_steps\<close> shows that the uncut \<open>prefetchSweep\<close> of theory \<open>Server\<close> is a sequence of
  them.  A state holds the variables of the two loops: the schedule \<open>next\<close>, the entry in hand
  and the entries still to come.
\<close>

section \<open>Steps\<close>

datatype sweep_state =
    SWaiting "string \<rightharpoonup> timestamp"
  | SDomains "string \<rightharpoonup> timestamp" "(string \<times> string) list"
  | SDomainStore "string \<rightharpoonup> timestamp" string int dns_msg bytes "(string \<times> string) list"
  | SDomainPublish "string \<rightharpoonup> timestamp" string int dns_msg bytes "(string \<times> string) list"
  | SRanking "string \<rightharpoonup> timestamp"
  | SMembers "string \<rightharpoonup> timestamp" "scoredMember list"
  | SMemberStore "string \<rightharpoonup> timestamp" scoredMember string u16 dns_msg bytes "scoredMember list"
  | SMemberPublish "string \<rightharpoonup> timestamp" scoredMember string u16 dns_msg bytes duration "scoredMember list"
  | SDecaying "string \<rightharpoonup> timestamp"

definition sweep_interval :: "'r Server \<Rightarrow> string \<Rightarrow> int" where
  "sweep_interval s intervalStr =
     (case parse_int (trim_space intervalStr) of
        Some i \<Rightarrow> if i \<le> 0 then s_prefetch s sdiv second else i
      | None \<Rightarrow> s_prefetch s sdiv second)"

fun sweep_step :: "'r env \<Rightarrow> 'r Server \<Rightarrow> sweep_state \<Rightarrow> ('r, sweep_state) io" where
  "sweep_step E s (SWaiting nxt) =
     do { rep \<leftarrow> call E (HGETALL HashHotDomains);
          case rep of RHash domains \<Rightarrow> ret (SDomains nxt domains) | _ \<Rightarrow> ret (SWaiting nxt) }"
| "sweep_step E s (SDomains nxt []) = ret (SRanking nxt)"
| "sweep_step E s (SDomains nxt ((fqdn, intervalStr) # rest)) =
     (let name = to_lower (Fqdn E fqdn)
      in do { later \<leftarrow> (case nxt name of
                           Some t \<Rightarrow> do { u \<leftarrow> now E; ret (u < t) }
                         | None \<Rightarrow> ret False);
              if later then ret (SDomains nxt rest)
              else
                do { result \<leftarrow> s_resolve s name TypeA;
                     case result of
                       Inl err \<Rightarrow> ret (SDomains nxt rest)
                     | Inr answer \<Rightarrow>
                         (case Pack E answer of
                            Inl err \<Rightarrow> ret (SDomains nxt rest)
                          | Inr wire \<Rightarrow>
                              ret (SDomainStore nxt name (sweep_interval s intervalStr) answer wire rest)) } })"
| "sweep_step E s (SDomainStore nxt name interval answer wire rest) =
     do { _ \<leftarrow> cache E s name TypeA wire answer;
          ret (SDomainPublish nxt name interval answer wire rest) }"
| "sweep_step E s (SDomainPublish nxt name interval answer wire rest) =
     do { t \<leftarrow> now E;
          _ \<leftarrow> publish E name TypeA wire answer t;
          u \<leftarrow> now E;
          ret (SDomains (nxt(name \<mapsto> u + dur_mul interval second)) rest) }"
| "sweep_step E s (SRanking nxt) =
     (if s_topN s \<le> 0 then ret (SDecaying nxt)
      else
        (case s_rank s of
           None \<Rightarrow> ret (SDecaying nxt)
         | Some rank \<Rightarrow>
             do { ranked \<leftarrow> Top rank (s_topN s) minPrefetchScore;
                  case ranked of
                    Inl err \<Rightarrow> ret (SDecaying nxt)
                  | Inr ms \<Rightarrow> do { t \<leftarrow> now E; ret (SMembers nxt (dueDynamic E ms nxt t)) } }))"
| "sweep_step E s (SMembers nxt []) = ret (SDecaying nxt)"
| "sweep_step E s (SMembers nxt (m # rest)) =
     (let (name, qtype) = (case parseMember E (Member m) of Some nt \<Rightarrow> nt | None \<Rightarrow> ([], 0))
      in do { result \<leftarrow> s_resolve s name qtype;
              case result of
                Inl err \<Rightarrow> do { u \<leftarrow> now E; ret (SMembers (nxt(''dyn|'' @ Member m \<mapsto> u + s_prefetch s)) rest) }
              | Inr answer \<Rightarrow>
                  (case Pack E answer of
                     Inl err \<Rightarrow> ret (SMembers nxt rest)
                   | Inr wire \<Rightarrow> ret (SMemberStore nxt m name qtype answer wire rest)) })"
| "sweep_step E s (SMemberStore nxt m name qtype answer wire rest) =
     do { ttl \<leftarrow> cache E s name qtype wire answer;
          ret (SMemberPublish nxt m name qtype answer wire ttl rest) }"
| "sweep_step E s (SMemberPublish nxt m name qtype answer wire ttl rest) =
     do { t \<leftarrow> now E;
          _ \<leftarrow> publish E name qtype wire answer t;
          u \<leftarrow> now E;
          ret (SMembers (nxt(''dyn|'' @ Member m \<mapsto> u + prefetchNextDelay ttl (s_prefetch s))) rest) }"
| "sweep_step E s (SDecaying nxt) =
     (case s_rank s of
        None \<Rightarrow> ret (SWaiting nxt)
      | Some rank \<Rightarrow>
          if s_halfLife s > 0
          then do { _ \<leftarrow> Decay rank (decayFactor (s_halfLife s) (s_prefetch s)); ret (SWaiting nxt) }
          else ret (SWaiting nxt))"

inductive sweeping :: "'r env \<Rightarrow> 'r Server \<Rightarrow> sweep_state \<times> 'r world \<Rightarrow> sweep_state \<times> 'r world \<Rightarrow> bool"
  for E :: "'r env" and s :: "'r Server" where
  pause: "sweeping E s c c"
| go: "run_state (sweep_step E s p) w = c1 \<Longrightarrow> sweeping E s c1 c2 \<Longrightarrow> sweeping E s (p, w) c2"

section \<open>The sweep is a sequence of steps\<close>

lemma sweeping_trans: "sweeping E s c1 c2 \<Longrightarrow> sweeping E s c2 c3 \<Longrightarrow> sweeping E s c1 c3"
  by (induction rule: sweeping.induct) (auto intro: sweeping.go)

lemma sweeping_one: "run_state (sweep_step E s p) w = c \<Longrightarrow> sweeping E s (p, w) c"
  by (rule sweeping.go [OF _ sweeping.pause])

text \<open>Two loops of the same shape: one entry at a time, from loop head to loop head.\<close>

lemma sweeping_foldM:
  assumes "\<And>nxt x rest w nxt' w'. run_state (f nxt x) w = (nxt', w') \<Longrightarrow>
      sweeping E s (head nxt (x # rest), w) (head nxt' rest, w')"
    and "run_state (foldM f nxt xs) w = (nxt', w')"
  shows "sweeping E s (head nxt xs, w) (head nxt' [], w')"
  using assms(2)
proof (induction xs arbitrary: nxt w)
  case Nil
  then show ?case by (simp add: sweeping.pause)
next
  case (Cons x xs)
  obtain nxt1 w1 where f: "run_state (f nxt x) w = (nxt1, w1)" by fastforce
  with Cons.prems have "run_state (foldM f nxt1 xs) w1 = (nxt', w')" by simp
  from sweeping_trans [OF assms(1) [OF f] Cons.IH [OF this]] show ?case .
qed

lemma sweeping_domain:
  assumes "run_state (sweep_domain E s nxt entry) w = (nxt', w')"
  shows "sweeping E s (SDomains nxt (entry # rest), w) (SDomains nxt' rest, w')"
proof -
  obtain fqdn str where e: "entry = (fqdn, str)" by fastforce
  let ?name = "to_lower (Fqdn E fqdn)"
  let ?late = "case nxt ?name of Some t \<Rightarrow> do { u \<leftarrow> now E; ret (u < t) } | None \<Rightarrow> ret False"
  obtain late w1 where L: "run_state ?late w = (late, w1)" by fastforce
  obtain res w2 where R: "run_state (s_resolve s ?name TypeA) w1 = (res, w2)" by fastforce
  show ?thesis
  proof (cases "\<exists>answer wire. \<not> late \<and> res = Inr answer \<and> Pack E answer = Inr wire")
    case False
    with assms L R have "run_state (sweep_step E s (SDomains nxt (entry # rest))) w = (SDomains nxt' rest, w')"
      by (auto simp: e sweep_domain_def Let_def split: sum.splits)
    then show ?thesis by (rule sweeping_one)
  next
    case True
    then obtain answer wire where P: "\<not> late" "res = Inr answer" "Pack E answer = Inr wire" by blast
    let ?i = "sweep_interval s str"
    have 1: "run_state (sweep_step E s (SDomains nxt (entry # rest))) w = (SDomainStore nxt ?name ?i answer wire rest, w2)"
      using L R P by (simp add: e Let_def)
    obtain ttl w3 where C: "run_state (cache E s ?name TypeA wire answer) w2 = (ttl, w3)" by fastforce
    then have 2: "run_state (sweep_step E s (SDomainStore nxt ?name ?i answer wire rest)) w2 =
        (SDomainPublish nxt ?name ?i answer wire rest, w3)" by simp
    have 3: "run_state (sweep_step E s (SDomainPublish nxt ?name ?i answer wire rest)) w3 = (SDomains nxt' rest, w')"
      using assms L R P C by (auto simp: e sweep_domain_def sweep_interval_def Let_def split: prod.splits)
    show ?thesis by (rule sweeping.go [OF 1 sweeping.go [OF 2 sweeping_one [OF 3]]])
  qed
qed

lemma sweeping_member:
  assumes "run_state (refresh_member E s nxt m) w = (nxt', w')"
  shows "sweeping E s (SMembers nxt (m # rest), w) (SMembers nxt' rest, w')"
proof -
  obtain name qtype where e: "(case parseMember E (Member m) of Some nt \<Rightarrow> nt | None \<Rightarrow> ([], 0)) = (name, qtype)"
    by fastforce
  obtain res w2 where R: "run_state (s_resolve s name qtype) w = (res, w2)" by fastforce
  show ?thesis
  proof (cases "\<exists>answer wire. res = Inr answer \<and> Pack E answer = Inr wire")
    case False
    with assms R have "run_state (sweep_step E s (SMembers nxt (m # rest))) w = (SMembers nxt' rest, w')"
      by (auto simp: e refresh_member_def Let_def split: sum.splits)
    then show ?thesis by (rule sweeping_one)
  next
    case True
    then obtain answer wire where P: "res = Inr answer" "Pack E answer = Inr wire" by blast
    have 1: "run_state (sweep_step E s (SMembers nxt (m # rest))) w = (SMemberStore nxt m name qtype answer wire rest, w2)"
      using R P by (simp add: e)
    obtain ttl w3 where C: "run_state (cache E s name qtype wire answer) w2 = (ttl, w3)" by fastforce
    then have 2: "run_state (sweep_step E s (SMemberStore nxt m name qtype answer wire rest)) w2 =
        (SMemberPublish nxt m name qtype answer wire ttl rest, w3)" by simp
    have 3: "run_state (sweep_step E s (SMemberPublish nxt m name qtype answer wire ttl rest)) w3 = (SMembers nxt' rest, w')"
      using assms R P C by (auto simp: e refresh_member_def Let_def split: prod.splits)
    show ?thesis by (rule sweeping.go [OF 1 sweeping.go [OF 2 sweeping_one [OF 3]]])
  qed
qed

lemma sweeping_dynamic:
  assumes "run_state (prefetchDynamic E s nxt) w = (nxt', w')"
  shows "sweeping E s (SRanking nxt, w) (SDecaying nxt', w')"
proof (cases "s_topN s \<le> 0 \<or> s_rank s = None")
  case True
  with assms have "run_state (sweep_step E s (SRanking nxt)) w = (SDecaying nxt', w')"
    by (auto simp: prefetchDynamic_def split: option.splits)
  then show ?thesis by (rule sweeping_one)
next
  case False
  then obtain rank where r: "\<not> s_topN s \<le> 0" "s_rank s = Some rank" by auto
  obtain ranked w1 where T: "run_state (Top rank (s_topN s) minPrefetchScore) w = (ranked, w1)" by fastforce
  show ?thesis
  proof (cases ranked)
    case (Inl err)
    with assms r T have "run_state (sweep_step E s (SRanking nxt)) w = (SDecaying nxt', w')"
      by (simp add: prefetchDynamic_def)
    then show ?thesis by (rule sweeping_one)
  next
    case (Inr ms)
    let ?due = "dueDynamic E ms nxt (clock E (ticks w1))" and ?w2 = "w1\<lparr>ticks := Suc (ticks w1)\<rparr>"
    have 1: "run_state (sweep_step E s (SRanking nxt)) w = (SMembers nxt ?due, ?w2)"
      using r T Inr by simp
    have "run_state (foldM (refresh_member E s) nxt ?due) ?w2 = (nxt', w')"
      using assms r T Inr by (simp add: prefetchDynamic_def)
    from sweeping_foldM [where head = SMembers, OF sweeping_member this]
    have 2: "sweeping E s (SMembers nxt ?due, ?w2) (SMembers nxt' [], w')" .
    have 3: "run_state (sweep_step E s (SMembers nxt' [])) w' = (SDecaying nxt', w')" by simp
    show ?thesis by (rule sweeping_trans [OF sweeping.go [OF 1 2] sweeping_one [OF 3]])
  qed
qed

lemma sweep_in_steps:
  assumes "run_state (prefetchSweep E s nxt) w = (nxt', w')"
  shows "sweeping E s (SWaiting nxt, w) (SWaiting nxt', w')"
proof -
  obtain rep w1 where G: "run_state (call E (HGETALL HashHotDomains)) w = (rep, w1)" by fastforce
  show ?thesis
  proof (cases "\<exists>domains. rep = RHash domains")
    case False
    with assms G have "run_state (sweep_step E s (SWaiting nxt)) w = (SWaiting nxt', w')"
      by (auto simp: prefetchSweep_def split: redis_reply.splits)
    then show ?thesis by (rule sweeping_one)
  next
    case True
    then obtain domains where d: "rep = RHash domains" by blast
    have 1: "run_state (sweep_step E s (SWaiting nxt)) w = (SDomains nxt domains, w1)" using G d by simp
    obtain nxt2 w2 where F: "run_state (foldM (sweep_domain E s) nxt domains) w1 = (nxt2, w2)" by fastforce
    note 2 = sweeping_foldM [where head = SDomains, OF sweeping_domain F]
    have 3: "run_state (sweep_step E s (SDomains nxt2 [])) w2 = (SRanking nxt2, w2)" by simp
    obtain nxt3 w3 where Y: "run_state (prefetchDynamic E s nxt2) w2 = (nxt3, w3)" by fastforce
    have 4: "run_state (sweep_step E s (SDecaying nxt3)) w3 = (SWaiting nxt', w')"
      using assms G d F Y by (auto simp: prefetchSweep_def split: option.splits prod.splits if_splits)
    show ?thesis
      by (rule sweeping.go [OF 1 sweeping_trans [OF 2 sweeping.go [OF 3
            sweeping_trans [OF sweeping_dynamic [OF Y] sweeping_one [OF 4]]]]])
  qed
qed

section \<open>Every step keeps the invariant\<close>

definition sound_sweep :: "'r env \<Rightarrow> 'r Resolver \<Rightarrow> sweep_state \<Rightarrow> bool" where
  "sound_sweep E r p =
     (case p of
        SDomainStore nxt name interval answer wire rest \<Rightarrow> genuine E r name TypeA wire
      | SDomainPublish nxt name interval answer wire rest \<Rightarrow> genuine E r name TypeA wire
      | SMemberStore nxt m name qtype answer wire rest \<Rightarrow> genuine E r name qtype wire
      | SMemberPublish nxt m name qtype answer wire ttl rest \<Rightarrow> genuine E r name qtype wire
      | _ \<Rightarrow> True)"

lemma sound_sweep_simps [simp]:
  "sound_sweep E r (SWaiting nxt)" "sound_sweep E r (SDomains nxt ds)" "sound_sweep E r (SRanking nxt)"
  "sound_sweep E r (SMembers nxt ms)" "sound_sweep E r (SDecaying nxt)"
  "sound_sweep E r (SDomainStore nxt name i answer wire ds) = genuine E r name TypeA wire"
  "sound_sweep E r (SDomainPublish nxt name i answer wire ds) = genuine E r name TypeA wire"
  "sound_sweep E r (SMemberStore nxt m name qtype answer wire ms) = genuine E r name qtype wire"
  "sound_sweep E r (SMemberPublish nxt m name qtype answer wire ttl ms) = genuine E r name qtype wire"
  by (simp_all add: sound_sweep_def)

context redis_strings
begin

lemma sweep_step_sound:
  assumes "mono (clock E)" "redis_backed E r" "\<And>rc. r_race r = Some rc \<Longrightarrow> honest_probes E rc"
    and "s_resolve s = Resolve E r" "s_rank s = Some (redisRankStore E)" "sound_sweep E r p"
  shows "keeps (wsound E r str_at iss) (sweep_step E s p) (sound_sweep E r)"
proof (cases "(E, s, p)" rule: sweep_step.cases)
  case (1 E' s' nxt)
  then have p: "p = SWaiting nxt" by simp
  show ?thesis
    unfolding p sweep_step.simps by (rule keeps_server assms(1) keeps_ret | simp add: sound_cmd_def)+
next
  case (3 E' s' nxt fqdn str rest)
  have p: "p = SDomains nxt ((fqdn, str) # rest)" using 3 by simp
  show ?thesis
    unfolding p sweep_step.simps Let_def assms(4)
    by (rule keeps_refresh [OF assms(1-3)] keeps_server assms(1) keeps_ret | simp)+
next
  case (4 E' s' nxt name interval answer wire rest)
  then have p: "p = SDomainStore nxt name interval answer wire rest" by simp
  with assms(6) have g: "genuine E r name TypeA wire" by simp
  show ?thesis
    unfolding p sweep_step.simps by (rule keeps_server assms(1) keeps_ret g | simp add: g)+
next
  case (5 E' s' nxt name interval answer wire rest)
  then have p: "p = SDomainPublish nxt name interval answer wire rest" by simp
  with assms(6) have g: "genuine E r name TypeA wire" by simp
  show ?thesis
    unfolding p sweep_step.simps by (rule keeps_server assms(1) keeps_ret g | simp add: g)+
next
  case (6 E' s' nxt)
  have p: "p = SRanking nxt" using 6 by simp
  show ?thesis
    unfolding p sweep_step.simps assms(5) option.case redisRankStore_def rankStore.simps
    by (rule keeps_rank [OF assms(1)] keeps_server assms(1) keeps_ret | simp)+
next
  case (8 E' s' nxt m rest)
  have p: "p = SMembers nxt (m # rest)" using 8 by simp
  show ?thesis
    unfolding p sweep_step.simps Let_def assms(4)
    by (rule keeps_refresh [OF assms(1-3)] keeps_server assms(1) keeps_ret | simp)+
next
  case (9 E' s' nxt m name qtype answer wire rest)
  then have p: "p = SMemberStore nxt m name qtype answer wire rest" by simp
  with assms(6) have g: "genuine E r name qtype wire" by simp
  show ?thesis
    unfolding p sweep_step.simps by (rule keeps_server assms(1) keeps_ret g | simp add: g)+
next
  case (10 E' s' nxt m name qtype answer wire ttl rest)
  then have p: "p = SMemberPublish nxt m name qtype answer wire ttl rest" by simp
  with assms(6) have g: "genuine E r name qtype wire" by simp
  show ?thesis
    unfolding p sweep_step.simps by (rule keeps_server assms(1) keeps_ret g | simp add: g)+
next
  case (11 E' s' nxt)
  have p: "p = SDecaying nxt" using 11 by simp
  show ?thesis
    unfolding p sweep_step.simps assms(5) option.case redisRankStore_def rankStore.simps
    by (rule keeps_rank [OF assms(1)] keeps_server assms(1) keeps_ret | simp)+
qed (auto intro: keeps_ret)

end

end
