(* ===== verification/System.thy ===== *)
theory System
  imports Sweep
begin

text \<open>
  Server, Redis and any number of clients together.  A request's handler runs as a goroutine
  whose Redis commands interleave with those of other handlers: \<open>task_step\<close> is the handler of
  \<open>server.go\<close> cut at the points where another goroutine can get in between, and
  \<open>process_schedule\<close> shows that the uncut handler of theory \<open>Server\<close> is one of its
  schedules.  \<open>sys_step\<close> adds the prefetch goroutine in the steps of theory \<open>Sweep\<close>, the counter, the passage of time, and the
  clients: queries, requests, responses, pushed updates, and swaps of the connection (here all
  to the one Redis of the server; the cache is emptied as for any other).

  Redis delivers what was added and nothing else: a stream or channel payload that a client
  receives is one of a command issued before.  It may deliver late, repeatedly or never.
\<close>

section \<open>Handlers cut into steps\<close>

datatype task =
    THandle xmessage
  | TLookup string request
  | TAnswer string request redis_reply
  | TStore string request dns_msg bytes timestamp
  | TPublish string request dns_msg bytes timestamp
  | TSend response
  | TAck string

definition fresh_response :: "request \<Rightarrow> response" where
  "fresh_response req =
     zero_response\<lparr>rsp_id := req_id req, rsp_name := req_name req, rsp_type := req_type req\<rparr>"

text \<open>
  A step of one goroutine and the goroutines that are left: \<open>TSend\<close> is the goroutine that the
  handler starts for the response stream.
\<close>

fun task_step :: "'r env \<Rightarrow> 'r Server \<Rightarrow> task \<Rightarrow> ('r, task list) io" where
  "task_step E s (THandle msg) =
     (case map_of (xm_values msg) ''data'' of
        None \<Rightarrow> ret [TAck (xm_id msg)]
      | Some data \<Rightarrow>
          (case unmarshal_request data of
             None \<Rightarrow> ret [TAck (xm_id msg)]
           | Some req \<Rightarrow>
               do { _ \<leftarrow> countQuery E (s_hasCountCh s) (req_name req) (req_type req);
                    ret [TLookup (xm_id msg) req] }))"
| "task_step E s (TLookup i req) =
     do { start \<leftarrow> now E;
          rep \<leftarrow> call E (GET (CacheKey (req_name req) (req_type req)));
          ret [TAnswer i req rep] }"
| "task_step E s (TAnswer i req rep) =
     (case cache_hit rep of
        Some wire \<Rightarrow>
          do { t \<leftarrow> now E;
               _ \<leftarrow> call E (response_cmd s
                     ((fresh_response req)\<lparr>rsp_wire := wire,
                        rsp_rcode := (case Unpack E wire of Inr m \<Rightarrow> m_rcode m | Inl err \<Rightarrow> 0),
                        rsp_resolved_at := t\<rparr>));
               ret [TAck i] }
      | None \<Rightarrow>
          do { result \<leftarrow> Resolve E (s_res s) (req_name req) (req_type req);
               case result of
                 Inl err \<Rightarrow> ret [TSend ((fresh_response req)\<lparr>rsp_err := err\<rparr>), TAck i]
               | Inr answer \<Rightarrow>
                   (case Pack E answer of
                      Inl perr \<Rightarrow> ret [TSend ((fresh_response req)\<lparr>rsp_err := perr\<rparr>), TAck i]
                    | Inr wire \<Rightarrow> do { t \<leftarrow> now E; ret [TStore i req answer wire t] }) })"
| "task_step E s (TStore i req answer wire t) =
     do { ttl \<leftarrow> cache E s (req_name req) (req_type req) wire answer;
          ret [TPublish i req answer wire t] }"
| "task_step E s (TPublish i req answer wire t) =
     do { _ \<leftarrow> publish E (req_name req) (req_type req) wire answer t;
          ret [TSend ((fresh_response req)\<lparr>rsp_wire := wire, rsp_rcode := m_rcode answer,
                 rsp_resolved_at := t\<rparr>), TAck i] }"
| "task_step E s (TSend resp) = do { _ \<leftarrow> call E (response_cmd s resp); ret [] }"
| "task_step E s (TAck i) = do { _ \<leftarrow> call E (XACK StreamRequests (s_group s) i); ret [] }"

text \<open>A schedule: some goroutine takes a step, again and again.\<close>

inductive schedule :: "'r env \<Rightarrow> 'r Server \<Rightarrow> task list \<times> 'r world \<Rightarrow> task list \<times> 'r world \<Rightarrow> bool"
  for E :: "'r env" and s :: "'r Server" where
  idle: "schedule E s c c"
| go: "run_state (task_step E s tk) w = (tks, w') \<Longrightarrow> schedule E s (xs @ tks @ ys, w') c \<Longrightarrow>
     schedule E s (xs @ tk # ys, w) c"

section \<open>The whole system\<close>

record 'r system =
  sw :: "'r world"
  tasks :: "task list"
  sweeper :: sweep_state
  reqs :: "xmessage list"
  issued :: "string \<rightharpoonup> string \<times> u16"
  clients :: "nat \<Rightarrow> Client"
  served :: "(nat \<times> string \<times> u16 \<times> bytes) list"

text \<open>
  The steps of \<open>resolveQuery\<close> in one client: the local cache answers; or the query misses and its
  request is added to the stream; or a response to an issued request is checked, stored and
  served.
\<close>

inductive query_step :: "'r env \<Rightarrow> 'r system \<Rightarrow> 'r system \<Rightarrow> bool"
  for E :: "'r env" where
  local_hit: "localGet (clients S k) t (CacheKey name qtype) = (Some wire, c') \<Longrightarrow>
     query_step E S (S\<lparr>clients := (clients S)(k := c'), served := served S @ [(k, name, qtype, wire)]\<rparr>)"
| ask: "localGet (clients S k) t (CacheKey name qtype) = (None, c') \<Longrightarrow> i = newID random u \<Longrightarrow>
     issued S i = None \<Longrightarrow> payload = marshal_request \<lparr>req_id = i, req_name = name, req_type = qtype\<rparr> \<Longrightarrow>
     run_state (call E (XADD StreamRequests None payload)) (sw S) = (rep, w') \<Longrightarrow>
     query_step E S (S\<lparr>issued := (issued S)(i \<mapsto> (name, qtype)), sw := w',
       reqs := reqs S @ [\<lparr>xm_id = x, xm_values = [(''data'', payload)]\<rparr>], clients := (clients S)(k := c')\<rparr>)"
| receive: "XADD StreamResponses l payload \<in> set (cmds (sw S)) \<Longrightarrow>
     unmarshal_response payload = Some resp \<Longrightarrow> issued S (rsp_id resp) = Some (name, qtype) \<Longrightarrow>
     check_resp resp = Inr resp' \<Longrightarrow>
     query_step E S (S\<lparr>clients := (clients S)(k := localSet E (clients S k) t (CacheKey name qtype)
         (rsp_wire resp') (rsp_resolved_at resp')), served := served S @ [(k, name, qtype, rsp_wire resp')]\<rparr>)"

text \<open>
  The composition: a query step, a message handed to a worker, a step of a handler, of the
  sweep or of the counter, time, a pushed update, a swap.
\<close>

inductive sys_step :: "'r env \<Rightarrow> 'r Server \<Rightarrow> 'r system \<Rightarrow> 'r system \<Rightarrow> bool"
  for E :: "'r env" and s :: "'r Server" where
  query: "query_step E S S' \<Longrightarrow> sys_step E s S S'"
| deliver: "msg \<in> set (reqs S) \<Longrightarrow> sys_step E s S (S\<lparr>tasks := tasks S @ [THandle msg]\<rparr>)"
| work: "tasks S = xs @ tk # ys \<Longrightarrow> run_state (task_step E s tk) (sw S) = (tks, w') \<Longrightarrow>
     sys_step E s S (S\<lparr>tasks := xs @ tks @ ys, sw := w'\<rparr>)"
| sweep: "run_state (sweep_step E s (sweeper S)) (sw S) = (p, w') \<Longrightarrow>
     sys_step E s S (S\<lparr>sweeper := p, sw := w'\<rparr>)"
| count: "run_state (runCounter E batch evs) (sw S) = (rest, w') \<Longrightarrow> sys_step E s S (S\<lparr>sw := w'\<rparr>)"
| pass: "ticks (sw S) \<le> n \<Longrightarrow> sys_step E s S (S\<lparr>sw := (sw S)\<lparr>ticks := n\<rparr>\<rparr>)"
| push: "PUBLISH ChannelUpdates payload \<in> set (cmds (sw S)) \<Longrightarrow>
     sys_step E s S (S\<lparr>clients := (clients S)(k := warm E (clients S k) t payload)\<rparr>)"
| swap: "sys_step E s S (S\<lparr>clients := (clients S)(k := fst (SwapRedis (clients S k) rdb))\<rparr>)"

inductive reachable :: "'r env \<Rightarrow> 'r Server \<Rightarrow> 'r system \<Rightarrow> 'r system \<Rightarrow> bool"
  for E :: "'r env" and s :: "'r Server" and S0 :: "'r system" where
  start: "reachable E s S0 S0"
| step: "reachable E s S0 S \<Longrightarrow> sys_step E s S S' \<Longrightarrow> reachable E s S0 S'"

text \<open>A system that has just been started over a Redis without cached answers.\<close>

definition booted ::
  "'r env \<Rightarrow> ('r \<Rightarrow> timestamp \<Rightarrow> string \<Rightarrow> bytes option) \<Rightarrow> 'r system \<Rightarrow> bool" where
  "booted E str_at S \<longleftrightarrow>
     cmds (sw S) = [] \<and> tasks S = [] \<and> sweeper S = SWaiting Map.empty \<and> reqs S = [] \<and> issued S = Map.empty \<and> served S = [] \<and>
     (\<forall>k. c_local (clients S k) = Map.empty) \<and>
     (\<forall>n q t. clock E (ticks (sw S)) \<le> t \<longrightarrow> str_at (store (sw S)) t (CacheKey n q) = None)"

section \<open>The handler is a schedule\<close>

lemma schedule_first:
  "run_state (task_step E s tk) w = (tks, w') \<Longrightarrow> schedule E s (tks @ ys, w') c \<Longrightarrow> schedule E s (tk # ys, w) c"
  using schedule.go [where xs = "[]"] by fastforce

lemma schedule_one:
  "run_state (task_step E s tk) w = (tks, w') \<Longrightarrow> schedule E s (tks, w') c \<Longrightarrow> schedule E s ([tk], w) c"
  using schedule_first [where ys = "[]"] by fastforce

lemma schedule_second:
  "run_state (task_step E s tk) w = ([], w') \<Longrightarrow> schedule E s ([t], w') c \<Longrightarrow> schedule E s ([t, tk], w) c"
  using schedule.go [where xs = "[t]" and ys = "[]"] by fastforce

text \<open>What the handler's goroutine does after \<open>handle\<close>: the acknowledgement, around the response.\<close>

definition finish :: "'r env \<Rightarrow> 'r Server \<Rightarrow> bool \<Rightarrow> string \<Rightarrow> redis_cmd list \<Rightarrow> ('r, unit) io" where
  "finish E s late i spawned =
     do { _ \<leftarrow> (if late then ret None else pipeline E spawned);
          _ \<leftarrow> call E (XACK StreamRequests (s_group s) i);
          _ \<leftarrow> (if late then pipeline E spawned else ret None);
          ret () }"

lemma process_finish: "process E s late msg = do { spawned \<leftarrow> handle E s msg; finish E s late (xm_id msg) spawned }"
  by (simp add: process_def finish_def)

lemma schedule_ack: "schedule E s ([TAck i], w) ([], snd (run_state (finish E s late i []) w))"
proof (rule schedule_one [OF _ schedule.idle])
  show "run_state (task_step E s (TAck i)) w = ([], snd (run_state (finish E s late i []) w))"
    by (simp add: finish_def split: prod.splits)
qed

lemma schedule_send_ack:
  "schedule E s ([TSend resp, TAck i], w) ([], snd (run_state (finish E s late i [response_cmd s resp]) w))"
proof (cases late)
  case False
  let ?w1 = "snd (run_state (call E (response_cmd s resp)) w)"
  have "run_state (task_step E s (TSend resp)) w = ([], ?w1)" by (simp split: prod.splits)
  moreover have "snd (run_state (finish E s late i [response_cmd s resp]) w) = snd (run_state (finish E s late i []) ?w1)"
    using False by (simp add: finish_def split: prod.splits)
  ultimately show ?thesis using schedule_ack [of E s i ?w1 late] schedule_first [where ys = "[TAck i]"] by fastforce
next
  case True
  let ?w1 = "snd (run_state (call E (XACK StreamRequests (s_group s) i)) w)"
  have "run_state (task_step E s (TAck i)) w = ([], ?w1)" by (simp split: prod.splits)
  moreover have "schedule E s ([TSend resp], ?w1) ([], snd (run_state (finish E s late i [response_cmd s resp]) w))"
  proof (rule schedule_one [OF _ schedule.idle])
    show "run_state (task_step E s (TSend resp)) ?w1 =
        ([], snd (run_state (finish E s late i [response_cmd s resp]) w))"
      using True by (simp add: finish_def split: prod.splits)
  qed
  ultimately show ?thesis by (rule schedule_second)
qed

lemma schedule_answer:
  assumes "run_state (resolve_fresh E s req (fresh_response req)) w = (resp, w1)" "cache_hit rep = None"
  shows "schedule E s ([TAnswer i req rep], w) ([], snd (run_state (finish E s late i [response_cmd s resp]) w1))"
proof -
  obtain result v where R: "run_state (Resolve E (s_res s) (req_name req) (req_type req)) w = (result, v)" by fastforce
  show ?thesis
  proof (cases "\<exists>answer wire. result = Inr answer \<and> Pack E answer = Inr wire")
    case False
    with assms R have "run_state (task_step E s (TAnswer i req rep)) w = ([TSend resp, TAck i], w1)"
      by (auto simp: resolve_fresh_def split: sum.splits)
    from schedule_one [OF this schedule_send_ack] show ?thesis .
  next
    case True
    then obtain answer wire where P: "result = Inr answer" "Pack E answer = Inr wire" by blast
    let ?t = "clock E (ticks v)" and ?v1 = "v\<lparr>ticks := Suc (ticks v)\<rparr>"
    obtain ttl v2 where C: "run_state (cache E s (req_name req) (req_type req) wire answer) ?v1 = (ttl, v2)" by fastforce
    have out: "resp = (fresh_response req)\<lparr>rsp_wire := wire, rsp_rcode := m_rcode answer, rsp_resolved_at := ?t\<rparr>"
      "run_state (publish E (req_name req) (req_type req) wire answer ?t) v2 = ((), w1)"
      using assms(1) R P C by (auto simp: resolve_fresh_def split: prod.splits)
    have 1: "run_state (task_step E s (TPublish i req answer wire ?t)) v2 = ([TSend resp, TAck i], w1)"
      using out by simp
    have 2: "run_state (task_step E s (TStore i req answer wire ?t)) ?v1 = ([TPublish i req answer wire ?t], v2)"
      using C by simp
    have 3: "run_state (task_step E s (TAnswer i req rep)) w = ([TStore i req answer wire ?t], ?v1)"
      using R P assms(2) by simp
    show ?thesis
      by (rule schedule_one [OF 3 schedule_one [OF 2 schedule_one [OF 1 schedule_send_ack]]])
  qed
qed

lemma schedule_lookup:
  assumes "run_state (answer_request E s req) w = (spawned, w1)"
  shows "schedule E s ([TLookup i req], w) ([], snd (run_state (finish E s late i spawned) w1))"
proof -
  let ?w0 = "w\<lparr>ticks := Suc (ticks w)\<rparr>"
  obtain rep v where G: "run_state (call E (GET (CacheKey (req_name req) (req_type req)))) ?w0 = (rep, v)" by fastforce
  have "schedule E s ([TAnswer i req rep], v) ([], snd (run_state (finish E s late i spawned) w1))"
  proof (cases "cache_hit rep")
    case None
    with assms G obtain resp where "run_state (resolve_fresh E s req (fresh_response req)) v = (resp, w1)"
      "spawned = [response_cmd s resp]"
      by (auto simp: answer_request_def fresh_response_def Let_def split: prod.splits)
    with None show ?thesis using schedule_answer by metis
  next
    case (Some wire)
    with assms G have "run_state (task_step E s (TAnswer i req rep)) v = ([TAck i], w1)" "spawned = []"
      by (auto simp: answer_request_def fresh_response_def Let_def split: prod.splits)
    then show ?thesis using schedule_one [OF _ schedule_ack] by metis
  qed
  moreover have "run_state (task_step E s (TLookup i req)) w = ([TAnswer i req rep], v)" using G by simp
  ultimately show ?thesis using schedule_one by metis
qed

lemma process_schedule:
  assumes "run_state (process E s late msg) w = (u, w')"
  shows "schedule E s ([THandle msg], w) ([], w')"
proof -
  obtain spawned w1 where H: "run_state (handle E s msg) w = (spawned, w1)" by fastforce
  have w': "w' = snd (run_state (finish E s late (xm_id msg) spawned) w1)"
    using assms H by (simp add: process_finish)
  show ?thesis
  proof (cases "\<exists>data req. map_of (xm_values msg) ''data'' = Some data \<and> unmarshal_request data = Some req")
    case False
    with H have "run_state (task_step E s (THandle msg)) w = ([TAck (xm_id msg)], w)" "spawned = []" "w1 = w"
      by (auto simp: handle_def split: option.splits)
    with w' show ?thesis using schedule_one [OF _ schedule_ack] by metis
  next
    case True
    then obtain data req where D: "map_of (xm_values msg) ''data'' = Some data" "unmarshal_request data = Some req"
      by blast
    obtain v where Q: "run_state (countQuery E (s_hasCountCh s) (req_name req) (req_type req)) w = ((), v)"
      by (metis (full_types) old.unit.exhaust prod.exhaust)
    then have "run_state (answer_request E s req) v = (spawned, w1)" using H D by (simp add: handle_def)
    note L = schedule_lookup [OF this, of "xm_id msg" late]
    have "run_state (task_step E s (THandle msg)) w = ([TLookup (xm_id msg) req], v)" using D Q by simp
    from schedule_one [OF this L] w' show ?thesis by simp
  qed
qed

section \<open>The invariant of the system\<close>

text \<open>What the server learns of an issued request: names travel as JSON and are coerced to UTF-8.\<close>

definition issued_as :: "'r system \<Rightarrow> string \<Rightarrow> string \<Rightarrow> u16 \<Rightarrow> bool" where
  "issued_as S i name qtype \<longleftrightarrow> (\<exists>n. issued S i = Some (n, qtype) \<and> name = to_utf8 n)"

definition sound_task ::
  "'r env \<Rightarrow> 'r Resolver \<Rightarrow> (string \<Rightarrow> string \<Rightarrow> u16 \<Rightarrow> bool) \<Rightarrow> task \<Rightarrow> bool" where
  "sound_task E r iss tk =
     (case tk of
        THandle msg \<Rightarrow> \<forall>data req. map_of (xm_values msg) ''data'' = Some data \<longrightarrow> unmarshal_request data = Some req \<longrightarrow>
          iss (req_id req) (req_name req) (req_type req)
      | TLookup i req \<Rightarrow> iss (req_id req) (req_name req) (req_type req)
      | TAnswer i req rep \<Rightarrow> iss (req_id req) (req_name req) (req_type req) \<and>
          (\<forall>wire. rep = RBytes wire \<longrightarrow> genuine E r (req_name req) (req_type req) wire)
      | TStore i req answer wire t \<Rightarrow> iss (req_id req) (req_name req) (req_type req) \<and>
          genuine E r (req_name req) (req_type req) wire
      | TPublish i req answer wire t \<Rightarrow> iss (req_id req) (req_name req) (req_type req) \<and>
          genuine E r (req_name req) (req_type req) wire
      | TSend resp \<Rightarrow> sound_response E r iss resp
      | TAck i \<Rightarrow> True)"

text \<open>
  An answer in a client's hands was resolved for a name that reads the same as JSON, which for
  an ASCII name (as the DNS library prints every name) is that name.
\<close>

definition authentic :: "'r env \<Rightarrow> 'r Resolver \<Rightarrow> string \<Rightarrow> u16 \<Rightarrow> bytes \<Rightarrow> bool" where
  "authentic E r name qtype wire \<longleftrightarrow> (\<exists>n. to_utf8 n = to_utf8 name \<and> genuine E r n qtype wire)"

definition sound_client :: "'r env \<Rightarrow> 'r Resolver \<Rightarrow> Client \<Rightarrow> bool" where
  "sound_client E r c \<longleftrightarrow>
     (\<forall>name qtype e. c_local c (CacheKey name qtype) = Some e \<longrightarrow> authentic E r name qtype (le_wire e))"

definition sys_sound ::
  "'r env \<Rightarrow> 'r Server \<Rightarrow> ('r \<Rightarrow> timestamp \<Rightarrow> string \<Rightarrow> bytes option) \<Rightarrow> 'r system \<Rightarrow> bool" where
  "sys_sound E s str_at S \<longleftrightarrow>
     wsound E (s_res s) str_at (issued_as S) (sw S) \<and>
     (\<forall>tk \<in> set (tasks S). sound_task E (s_res s) (issued_as S) tk) \<and>
     (\<forall>msg \<in> set (reqs S). sound_task E (s_res s) (issued_as S) (THandle msg)) \<and>
     sound_sweep E (s_res s) (sweeper S) \<and> (\<forall>k. sound_client E (s_res s) (clients S k)) \<and>
     (\<forall>i v. issued S i = Some v \<longrightarrow> to_utf8 i = i) \<and>
     (\<forall>(k, name, qtype, wire) \<in> set (served S). authentic E (s_res s) name qtype wire)"

lemma sound_task_mono:
  assumes "sound_task E r iss tk" "\<And>i n q. iss i n q \<Longrightarrow> iss' i n q"
  shows "sound_task E r iss' tk"
  using assms by (cases tk) (auto simp: sound_task_def sound_response_def)

lemma authentic_ascii: "authentic E r name qtype wire \<Longrightarrow> ascii name \<Longrightarrow> genuine E r name qtype wire"
  by (auto simp: authentic_def dest: to_utf8_eq_ascii)

lemma sound_client_localSet:
  assumes "sound_client E r c" "authentic E r name qtype wire"
  shows "sound_client E r (localSet E c t (CacheKey name qtype) wire v)"
  using assms
  by (auto simp: sound_client_def localSet_def Let_def dest: cache_keys.key_inj [rotated 2]
      split: option.splits if_splits)

lemma sound_client_localGet:
  assumes "sound_client E r c" "localGet c t (CacheKey name qtype) = (res, c')"
  shows "sound_client E r c' \<and> (\<forall>wire. res = Some wire \<longrightarrow> authentic E r name qtype wire)"
  using assms
  by (auto simp: sound_client_def localGet_def localGet_read_def localGet_evict_def Let_def
      split: option.splits if_splits)

lemma sound_client_warm:
  assumes "sound_client E r c" "payload = marshal_update u" "genuine E r (upd_name u) (upd_type u) (upd_wire u)"
  shows "sound_client E r (warm E c t payload)"
proof (cases "unmarshal_update payload")
  case None
  with assms(1) show ?thesis by (simp add: warm_def)
next
  case (Some x)
  with assms(2) have x: "upd_name x = to_utf8 (upd_name u)" "upd_type x = upd_type u" "upd_wire x = upd_wire u"
    using received_update by auto
  have "authentic E r (upd_name x) (upd_type x) (upd_wire x)"
    unfolding authentic_def x using assms(3) by (intro exI [of _ "upd_name u"]) (simp add: to_utf8_idem)
  with assms(1) Some show ?thesis by (simp add: warm_def sound_client_localSet)
qed

section \<open>Every step preserves the invariant\<close>

lemma newID_ascii: "ascii (newID random u)"
proof -
  have "ord (hex_digit d) < (128 :: nat)" if "d < 16" for d
    using that by (auto simp: hex_digit_def of_char_of take_bit_eq_mod)
  then have "ascii (hex_byte b)" for b
    by (simp add: hex_byte_def less_mult_imp_div_less unsigned_less [THEN order_less_le_trans])
  then have "ascii (hex_encode bs)" for bs by (induction bs) (auto simp: hex_encode_def)
  moreover have "ascii (itoa i)" for i
    by (auto simp: itoa_def list_all_iff dest!: digit_char_code_range)
  ultimately show ?thesis by (simp add: newID_def split: option.splits)
qed

context redis_strings
begin

lemma keeps_countQuery: "keeps (wsound E r str_at iss) (countQuery E b name qtype) any"
  by (simp add: keeps_def countQuery_def)

lemma keeps_count_flush:
  "mono (clock E) \<Longrightarrow> keeps (wsound E r str_at iss) (count_flush E batch) any"
  unfolding count_flush_def
  by (auto intro!: keeps_base keeps_pipeline simp: list_all_iff sound_cmd_def)

lemma keeps_count_recv: "keeps (wsound E r str_at iss) count_recv any"
  by (auto simp: keeps_def count_recv_def split: list.splits)

lemma keeps_runCounter:
  "mono (clock E) \<Longrightarrow> keeps (wsound E r str_at iss) (runCounter E batch evs) any"
proof (induction evs arbitrary: batch)
  case (Cons ev evs)
  then show ?case
    by (cases ev) (auto simp: Let_def intro!: keeps_base keeps_count_flush keeps_count_recv split: option.splits)
qed (simp add: keeps_rules)

lemma task_step_sound:
  assumes "mono (clock E)" "redis_backed E (s_res s)" "\<And>rc. r_race (s_res s) = Some rc \<Longrightarrow> honest_probes E rc"
    and "sound_task E (s_res s) iss tk"
  shows "keeps (wsound E (s_res s) str_at iss) (task_step E s tk) (\<lambda>tks. \<forall>t \<in> set tks. sound_task E (s_res s) iss t)"
    (is "keeps ?I _ ?Q")
proof (cases tk)
  case (THandle msg)
  with assms(4) show ?thesis
    by (auto simp: sound_task_def intro!: keeps_case keeps_bind [OF keeps_countQuery] keeps_ret split: option.splits)
next
  case (TLookup i req)
  show ?thesis unfolding TLookup task_step.simps
    by (rule keeps_bind [OF keeps_now [OF assms(1)]], rule keeps_bind [OF keeps_GET [OF assms(1)]], rule keeps_ret)
       (use assms(4) TLookup in \<open>simp add: sound_task_def\<close>)
next
  case (TAnswer i req rep)
  with assms(4) have iss: "iss (req_id req) (req_name req) (req_type req)"
    and rep: "rep = RBytes wire \<Longrightarrow> genuine E (s_res s) (req_name req) (req_type req) wire" for wire
    by (simp_all add: sound_task_def)
  have hit: "sound_cmd E (s_res s) iss (response_cmd s ((fresh_response req)\<lparr>rsp_wire := wire, rsp_rcode := rc, rsp_resolved_at := t\<rparr>))"
    if "cache_hit rep = Some wire" for wire rc t
    using that iss rep
    by (auto simp: sound_cmd_def response_cmd_def cache_hit_def sound_response_def fresh_response_def
        split: redis_reply.splits if_splits)
  have err: "sound_task E (s_res s) iss (TSend ((fresh_response req)\<lparr>rsp_err := e\<rparr>))" for e
    using iss by (simp add: sound_task_def sound_response_def fresh_response_def zero_response_def)
  show ?thesis unfolding TAnswer task_step.simps
    by (rule keeps_case(2), rule keeps_refresh [OF assms(1-3)])
       (auto intro!: keeps_ret keeps_bind [OF keeps_now] keeps_bind [OF keeps_call] assms(1) hit
          simp: err iss sound_task_def [of _ _ _ "TAck i"] sound_task_def [of _ _ _ "TStore i req a b c" for a b c])
next
  case (TStore i req answer wire t)
  with assms(1,4) show ?thesis
    by (auto simp: sound_task_def intro!: keeps_ret keeps_bind [OF keeps_cache])
next
  case (TPublish i req answer wire t)
  with assms(1,4) show ?thesis
    by (auto simp: sound_task_def sound_response_def fresh_response_def intro!: keeps_ret keeps_bind [OF keeps_publish])
next
  case (TSend resp)
  with assms(1,4) show ?thesis
    by (auto simp: sound_task_def sound_cmd_def response_cmd_def intro!: keeps_ret keeps_bind [OF keeps_call])
next
  case (TAck i)
  with assms(1) show ?thesis
    by (auto simp: sound_cmd_def intro!: keeps_ret keeps_bind [OF keeps_call])
qed

end

lemma issued_as_grows:
  "issued S i = None \<Longrightarrow> issued_as S i' n q \<Longrightarrow> issued_as (S\<lparr>issued := (issued S)(i \<mapsto> v)\<rparr>) i' n q"
  by (auto simp: issued_as_def)

lemma issued_as_cong: "issued S = issued S' \<Longrightarrow> issued_as S = issued_as S'"
  by (simp add: issued_as_def fun_eq_iff)

lemma sound_requested:
  assumes "issued_as S (newID random u) (to_utf8 name) qtype"
  shows "sound_task E r (issued_as S) (THandle \<lparr>xm_id = x, xm_values =
    [(''data'', marshal_request \<lparr>req_id = newID random u, req_name = name, req_type = qtype\<rparr>)]\<rparr>)"
  using assms by (auto simp: sound_task_def received_request to_utf8_ascii [OF newID_ascii])

lemma received_authentic:
  assumes "\<exists>x. payload = marshal_response x \<and> sound_response E r (issued_as S) x"
    and "unmarshal_response payload = Some resp" "issued S (rsp_id resp) = Some (name, qtype)"
    and "check_resp resp = Inr resp'" and "\<And>i v. issued S i = Some v \<Longrightarrow> to_utf8 i = i"
  shows "authentic E r name qtype (rsp_wire resp')"
proof -
  from assms(1) obtain x where x: "payload = marshal_response x" "sound_response E r (issued_as S) x" by blast
  note R = received_response [OF assms(2) [unfolded x(1)]]
  have c: "resp' = resp" "rsp_err resp = []" "rsp_wire resp \<noteq> []"
    using assms(4) by (auto simp: check_resp_def split: if_splits)
  have iss: "issued_as S (rsp_id x) (rsp_name x) (rsp_type x)" using x(2) by (simp add: sound_response_def)
  then have "rsp_id resp = rsp_id x" using R assms(5) by (auto simp: issued_as_def)
  with iss assms(3) have "rsp_name x = to_utf8 name" "rsp_type x = qtype" by (auto simp: issued_as_def)
  moreover have "genuine E r (rsp_name x) (rsp_type x) (rsp_wire x)"
    using x(2) c R by (simp add: sound_response_def)
  ultimately show ?thesis using c(1) R unfolding authentic_def by (intro exI [of _ "rsp_name x"]) simp
qed

text \<open>A server as \<open>New\<close> builds it, over a clock that does not run backwards.\<close>

definition deployed :: "'r env \<Rightarrow> 'r Server \<Rightarrow> bool" where
  "deployed E s \<longleftrightarrow>
     mono (clock E) \<and> redis_backed E (s_res s) \<and> (\<forall>rc. r_race (s_res s) = Some rc \<longrightarrow> honest_probes E rc) \<and>
     s_resolve s = Resolve E (s_res s) \<and> s_rank s = Some (redisRankStore E)"

lemma deployedD:
  assumes "deployed E s"
  shows "mono (clock E)" "redis_backed E (s_res s)" "r_race (s_res s) = Some rc \<Longrightarrow> honest_probes E rc"
    "s_resolve s = Resolve E (s_res s)" "s_rank s = Some (redisRankStore E)"
  using assms by (auto simp: deployed_def)

lemma sys_soundD:
  assumes "sys_sound E s str_at S"
  shows "wsound E (s_res s) str_at (issued_as S) (sw S)"
    and "tk \<in> set (tasks S) \<Longrightarrow> sound_task E (s_res s) (issued_as S) tk"
    and "msg \<in> set (reqs S) \<Longrightarrow> sound_task E (s_res s) (issued_as S) (THandle msg)"
    and "sound_client E (s_res s) (clients S k)"
    and "issued S i = Some v \<Longrightarrow> to_utf8 i = i"
    and "(k, name, qtype, wire) \<in> set (served S) \<Longrightarrow> authentic E (s_res s) name qtype wire"
    and "sound_sweep E (s_res s) (sweeper S)"
  using assms unfolding sys_sound_def by auto

lemma sys_sound_client:
  "sys_sound E s str_at S \<Longrightarrow> sound_client E (s_res s) c \<Longrightarrow> sys_sound E s str_at (S\<lparr>clients := (clients S)(k := c)\<rparr>)"
  using issued_as_cong [of "S\<lparr>clients := (clients S)(k := c)\<rparr>" S] by (simp add: sys_sound_def)

lemma sys_sound_served:
  "sys_sound E s str_at S \<Longrightarrow> authentic E (s_res s) name qtype wire \<Longrightarrow>
   sys_sound E s str_at (S\<lparr>served := served S @ [(k, name, qtype, wire)]\<rparr>)"
  using issued_as_cong [of "S\<lparr>served := served S @ [(k, name, qtype, wire)]\<rparr>" S] by (simp add: sys_sound_def)

lemma sys_sound_server:
  assumes "sys_sound E s str_at S" "wsound E (s_res s) str_at (issued_as S) w'"
    and "\<forall>tk \<in> set tks. sound_task E (s_res s) (issued_as S) tk"
  shows "sys_sound E s str_at (S\<lparr>tasks := tks, sw := w'\<rparr>)" "sys_sound E s str_at (S\<lparr>sw := w'\<rparr>)"
    "sound_sweep E (s_res s) p \<Longrightarrow> sys_sound E s str_at (S\<lparr>sweeper := p, sw := w'\<rparr>)" "sys_sound E s str_at (S\<lparr>tasks := tks\<rparr>)"
  using assms issued_as_cong [of "S\<lparr>tasks := tks, sw := w'\<rparr>" S] issued_as_cong [of "S\<lparr>sw := w'\<rparr>" S]
    issued_as_cong [of "S\<lparr>sweeper := p, sw := w'\<rparr>" S] issued_as_cong [of "S\<lparr>tasks := tks\<rparr>" S]
  by (simp_all add: sys_sound_def)

lemma sys_sound_ask:
  assumes "sys_sound E s str_at S" "issued S (newID random u) = None"
    and "payload = marshal_request \<lparr>req_id = newID random u, req_name = name, req_type = qtype\<rparr>"
    and "wsound E (s_res s) str_at (issued_as S) w'"
  shows "sys_sound E s str_at (S\<lparr>issued := (issued S)(newID random u \<mapsto> (name, qtype)), sw := w',
    reqs := reqs S @ [\<lparr>xm_id = x, xm_values = [(''data'', payload)]\<rparr>]\<rparr>)" (is "sys_sound E s str_at ?S'")
proof -
  note D = sys_soundD [OF assms(1)]
  have grow: "issued_as S i n q \<Longrightarrow> issued_as ?S' i n q" for i n q
    using assms(2) by (auto simp: issued_as_def)
  have "issued_as ?S' (newID random u) (to_utf8 name) qtype" by (simp add: issued_as_def)
  from sound_requested [OF this] have new: "sound_task E (s_res s) (issued_as ?S')
      (THandle \<lparr>xm_id = x, xm_values = [(''data'', payload)]\<rparr>)"
    unfolding assms(3) .
  have "wsound E (s_res s) str_at (issued_as ?S') (sw ?S')"
    using wsound_mono [OF assms(4) grow] by simp
  moreover have "\<forall>tk \<in> set (tasks ?S'). sound_task E (s_res s) (issued_as ?S') tk"
    using sound_task_mono [OF D(2) grow] by simp
  moreover have "\<forall>msg \<in> set (reqs ?S'). sound_task E (s_res s) (issued_as ?S') (THandle msg)"
    using sound_task_mono [OF D(3) grow] new by simp
  moreover have "\<forall>i v. issued ?S' i = Some v \<longrightarrow> to_utf8 i = i"
    using D(5) to_utf8_ascii [OF newID_ascii] by auto
  ultimately show ?thesis unfolding sys_sound_def using D(4,6,7) by auto
qed

context redis_strings
begin

lemma query_step_sound:
  assumes "deployed E s" "sys_sound E s str_at S" "query_step E S S'"
  shows "sys_sound E s str_at S'"
  using assms(3)
proof cases
  note D = sys_soundD [OF assms(2)] and dep = deployedD [OF assms(1)]
  case (local_hit k t name qtype wire c')
  from sound_client_localGet [OF D(4) local_hit(2)] show ?thesis
    unfolding local_hit(1)
    using sys_sound_served [OF sys_sound_client [OF assms(2)], of c' name qtype wire k k] by simp
next
  note D = sys_soundD [OF assms(2)] and dep = deployedD [OF assms(1)]
  case (ask k t name qtype c' i random u payload rep w' x)
  have "sound_cmd E (s_res s) (issued_as S) (XADD StreamRequests None payload)"
    by (simp add: sound_cmd_def StreamRequests_def StreamResponses_def)
  from keepsD [OF keeps_call [OF dep(1) this] ask(6) D(1)]
  have "wsound E (s_res s) str_at (issued_as S) w'" by blast
  note A = sys_sound_ask [OF assms(2) ask(4) [unfolded ask(3)] ask(5) [unfolded ask(3)] this, of x]
  have "sound_client E (s_res s) c'" using sound_client_localGet [OF D(4) ask(2)] by blast
  from sys_sound_client [OF A this, of k] show ?thesis unfolding ask(1,3) by simp
next
  note D = sys_soundD [OF assms(2)]
  case (receive l payload resp name qtype resp' k t)
  with D(1) have "sound_cmd E (s_res s) (issued_as S) (XADD StreamResponses l payload)" by (simp add: wsound_def)
  then have "\<exists>x. payload = marshal_response x \<and> sound_response E (s_res s) (issued_as S) x"
    by (simp add: sound_cmd_def)
  from received_authentic [OF this receive(3-5) D(5)]
  have auth: "authentic E (s_res s) name qtype (rsp_wire resp')" .
  from sys_sound_served [OF sys_sound_client [OF assms(2) sound_client_localSet [OF D(4) auth]] auth]
  show ?thesis unfolding receive(1) by simp
qed

lemma sys_step_sound:
  assumes "deployed E s" "sys_sound E s str_at S" "sys_step E s S S'"
  shows "sys_sound E s str_at S'"
  using assms(3)
proof cases
  case query
  with assms(1,2) show ?thesis by (rule query_step_sound)
next
  case (deliver msg)
  then show ?thesis using sys_soundD [OF assms(2)]
    by (auto intro!: sys_sound_server(4) [OF assms(2) sys_soundD(1) [OF assms(2)]])
next
  note D = sys_soundD [OF assms(2)] and dep = deployedD [OF assms(1)]
  case (work xs tk ys tks w')
  then have "sound_task E (s_res s) (issued_as S) tk" using D(2) by simp
  from keepsD [OF task_step_sound [OF dep(1,2,3) this] work(3) D(1)] work D(2) show ?thesis
    by (auto intro!: sys_sound_server(1) [OF assms(2)])
next
  note D = sys_soundD [OF assms(2)] and dep = deployedD [OF assms(1)]
  case (sweep p w')
  from keepsD [OF sweep_step_sound [OF dep(1,2,3,4,5) D(7)] sweep(2) D(1)] show ?thesis
    unfolding sweep(1) by (intro sys_sound_server(3) [OF assms(2), of _ "[]"]) simp_all
next
  note D = sys_soundD [OF assms(2)] and dep = deployedD [OF assms(1)]
  case (count batch evs rest w')
  from keepsD [OF keeps_runCounter [OF dep(1)] count(2) D(1)] show ?thesis
    unfolding count(1) by (intro sys_sound_server(2) [OF assms(2), of _ "[]"]) simp_all
next
  note D = sys_soundD [OF assms(2)] and dep = deployedD [OF assms(1)]
  case (pass n)
  from wsound_later [OF dep(1) D(1) pass(2)] show ?thesis
    unfolding pass(1) by (intro sys_sound_server(2) [OF assms(2), of _ "[]"]) simp_all
next
  note D = sys_soundD [OF assms(2)]
  case (push payload k t)
  with D(1) have "sound_cmd E (s_res s) (issued_as S) (PUBLISH ChannelUpdates payload)" by (simp add: wsound_def)
  then obtain upd where "payload = marshal_update upd" "genuine E (s_res s) (upd_name upd) (upd_type upd) (upd_wire upd)"
    by (auto simp: sound_cmd_def)
  from sound_client_warm [OF D(4) this] show ?thesis
    unfolding push(1) by (rule sys_sound_client [OF assms(2)])
next
  case (swap k rdb)
  have "sound_client E (s_res s) (fst (SwapRedis (clients S k) rdb))"
    by (simp add: SwapRedis_def sound_client_def)
  from sys_sound_client [OF assms(2) this] show ?thesis unfolding swap by simp
qed

lemma booted_sound: "booted E str_at S \<Longrightarrow> sys_sound E s str_at S"
  by (auto simp: booted_def sys_sound_def wsound_def sound_client_def)

lemma reachable_sound:
  assumes "deployed E s" "booted E str_at S0" "reachable E s S0 S"
  shows "sys_sound E s str_at S"
  using assms(3) by induction (simp_all add: booted_sound [OF assms(2)] sys_step_sound [OF assms(1)])

end

section \<open>Properties\<close>

text \<open>
  C3: No answer is mixed up.  In every state that a server, a Redis and any number of clients
  can reach from a start over an empty cache, by any interleaving of queries, handlers,
  prefetch sweeps, pushed updates and reconnections that clear a client's cache, and whatever
  is delivered late or twice, each answer a client has served for a name and a type is the packed answer of the upstream
  to a question for that very name and type, whole or narrowed to one of its addresses.
\<close>

theorem served_answers_are_genuine:
  assumes "redis_strings E str_at" and "deployed E s" and "booted E str_at S0" and "reachable E s S0 S"
    and "(k, name, qtype, wire) \<in> set (served S)" and "ascii name"
  shows "genuine E (s_res s) name qtype wire"
  using redis_strings.reachable_sound [OF assms(1-4)] assms(5,6)
  by (auto dest: sys_soundD(6) authentic_ascii)

text \<open>The answer \<open>resolveQuery\<close> gives, as the steps of a client that nothing interrupts.\<close>

lemma resolveQuery_as_steps:
  assumes "m_question r = [q]" "name = to_lower (Fqdn E (q_name q))"
    and "localGet (clients S k) t1 (CacheKey name (q_type q)) = (None, c')" "clients S2 k = c'"
    and "XADD StreamResponses l payload \<in> set (cmds (sw S2))" "unmarshal_response payload = Some resp"
    and "issued S2 (rsp_id resp) = Some (name, q_type q)" "check_resp resp = Inr resp"
  shows "\<exists>S'. sys_step E s S2 S' \<and> clients S' k = snd (resolveQuery E (clients S k) t1 t2 (\<lambda>_ _ _. Inr resp) r) \<and>
    fst (resolveQuery E (clients S k) t1 t2 (\<lambda>_ _ _. Inr resp) r) = (Some (rsp_wire resp), RcodeSuccess) \<and>
    served S' = served S2 @ [(k, name, q_type q, rsp_wire resp)]"
  using sys_step.query [OF query_step.receive [OF assms(5-8), of E k t2], of s] assms(3,4)
  by (intro exI conjI) (auto simp: resolveQuery_cases [OF assms(1,2) refl])

section \<open>Runs\<close>

lemma reachable_trans:
  assumes "reachable E s S S'" "reachable E s S' S''"
  shows "reachable E s S S''"
  using assms(2,1) by induction (auto intro: reachable.step)

lemma reachable_step: "sys_step E s S S' \<Longrightarrow> reachable E s S' S'' \<Longrightarrow> reachable E s S S''"
  using reachable_trans [OF reachable.step [OF reachable.start]] by blast

lemma reachable_schedule:
  "schedule E s c c' \<Longrightarrow> c = (tasks S, sw S) \<Longrightarrow> reachable E s S (S\<lparr>tasks := fst c', sw := snd c'\<rparr>)"
proof (induction arbitrary: S rule: schedule.induct)
  case (idle c)
  then show ?case using reachable.start [of E s S] by simp
next
  case (go tk w tks w' xs ys c)
  let ?S1 = "S\<lparr>tasks := xs @ tks @ ys, sw := w'\<rparr>"
  have "sys_step E s S ?S1" using go by (intro sys_step.work) auto
  moreover have "reachable E s ?S1 (?S1\<lparr>tasks := fst c, sw := snd c\<rparr>)" using go.IH [of ?S1] by simp
  ultimately show ?case using reachable_step by fastforce
qed

lemma reachable_sweeping:
  "sweeping E s c c' \<Longrightarrow> c = (sweeper S, sw S) \<Longrightarrow> reachable E s S (S\<lparr>sweeper := fst c', sw := snd c'\<rparr>)"
proof (induction arbitrary: S rule: sweeping.induct)
  case (pause c)
  then show ?case using reachable.start [of E s S] by (metis fst_conv snd_conv system.surjective system.update_convs(1,3))
next
  case (go p w c1 c2)
  obtain p1 w1 where c1: "c1 = (p1, w1)" by fastforce
  let ?S1 = "S\<lparr>sweeper := p1, sw := w1\<rparr>"
  have "sys_step E s S ?S1" using go c1 by (intro sys_step.sweep) simp
  moreover have "reachable E s ?S1 (?S1\<lparr>sweeper := fst c2, sw := snd c2\<rparr>)" using go.IH [of ?S1] c1 by simp
  ultimately show ?case using reachable_step by fastforce
qed

text \<open>A sweep that nothing interrupts.\<close>

lemma reachable_sweep:
  assumes "run_state (prefetchSweep E s nxt) (sw S) = (nxt', w')" "sweeper S = SWaiting nxt"
  shows "reachable E s S (S\<lparr>sweeper := SWaiting nxt', sw := w'\<rparr>)"
  using reachable_sweeping [OF sweep_in_steps [OF assms(1)]] assms(2) by simp

section \<open>A concrete system\<close>

text \<open>A server over the in-memory Redis that asks an upstream without racing, and fresh clients.\<close>

definition plain_server :: "mem Server" where
  "plain_server = Server_New (mem_env dns_env) (Resolver_New ''192.0.2.53:53'' ''udp'' second) ''dns'' ''resolver''
     (300 * second) (60 * second) 1000 2 (30 * second) 0 0"

definition fresh_system :: "mem system" where
  "fresh_system = \<lparr>sw = start_world, tasks = [], sweeper = SWaiting Map.empty, reqs = [], issued = Map.empty,
     clients = (\<lambda>_. toy_client), served = []\<rparr>"

lemma plain_server_fields [simp]:
  "s_res plain_server = Resolver_New ''192.0.2.53:53'' ''udp'' second"
  "s_resolve plain_server = Resolve (mem_env dns_env) (Resolver_New ''192.0.2.53:53'' ''udp'' second)"
  "s_rank plain_server = Some (redisRankStore (mem_env dns_env))" "s_cacheTTL plain_server = 300 * second"
  "s_respMax plain_server = 1000" "s_group plain_server = ''dns''" "s_hasCountCh plain_server"
  by (simp_all add: plain_server_def Server_New_def Let_def)

lemma plain_deployed: "deployed (mem_env dns_env) plain_server"
  by (simp add: deployed_def redis_backed_def Resolver_New_def mono_def dns_env_def stub_env_def)

lemma fresh_booted: "booted E mem_str fresh_system"
  by (simp add: booted_def fresh_system_def start_world_def mem_str_def mem_empty_def)

abbreviation seven :: string where "seven \<equiv> newID None 7"

text \<open>The request of a first query, and the world in which its handler leaves.\<close>

definition first_message :: xmessage where
  "first_message = \<lparr>xm_id = ''1-0'', xm_values =
     [(''data'', marshal_request \<lparr>req_id = seven, req_name = ''example.com.'', req_type = 1\<rparr>)]\<rparr>"

definition asked_world :: "mem world" where
  "asked_world = snd (run_state (call (mem_env dns_env) (XADD StreamRequests None (marshal_request
     \<lparr>req_id = seven, req_name = ''example.com.'', req_type = 1\<rparr>))) start_world)"

definition answered_world :: "mem world" where
  "answered_world = snd (run_state (process (mem_env dns_env) plain_server False first_message) asked_world)"

lemma first_answer:
  "XADD StreamResponses (Some 1000) (marshal_response (zero_response\<lparr>rsp_id := seven, rsp_name := ''example.com.'',
     rsp_type := 1, rsp_wire := ''wire'', rsp_rcode := 0, rsp_resolved_at := 1000\<rparr>)) \<in> set (cmds answered_world)"
proof -
  have dec: "unmarshal_request (marshal_request \<lparr>req_id = seven, req_name = ''example.com.'', req_type = 1\<rparr>) =
      Some \<lparr>req_id = seven, req_name = ''example.com.'', req_type = 1\<rparr>"
    by (rule unmarshal_marshal_request) (simp add: wf_request_def valid_utf8_ascii newID_ascii)
  have env: "Exchange dns_env n net d m up = Inr two_ip_msg" "Pack dns_env two_ip_msg = Inr ''wire''"
    "clock dns_env n = 1000" for n net d m up
    by (simp_all add: dns_env_def stub_env_def)
  have rc: "m_rcode two_ip_msg = 0" by (simp add: two_ip_msg_def Let_def)
  show ?thesis
    unfolding answered_world_def asked_world_def
    by (simp add: process_def handle_def first_message_def dec countQuery_def start_world_def countQueueSize_def
        answer_request_def cache_hit_def resolve_fresh_def Resolve_def Resolver_New_def env cache_def publish_def
        mem_str_def mem_empty_def rc dns_constants second_def response_cmd_def Let_def)
qed

lemma first_run:
  "reachable (mem_env dns_env) plain_server fresh_system
     (fresh_system\<lparr>issued := [seven \<mapsto> (''example.com.'', 1)], reqs := [first_message], sw := answered_world,
        clients := (\<lambda>_. toy_client)(0 := localSet (mem_env dns_env) toy_client 1000 (CacheKey ''example.com.'' 1) ''wire'' 1000),
        served := [(0, ''example.com.'', 1, ''wire'')]\<rparr>)"
    (is "reachable ?E ?s ?S0 ?S4")
proof -
  let ?S1 = "?S0\<lparr>issued := [seven \<mapsto> (''example.com.'', 1)], reqs := [first_message], sw := asked_world\<rparr>"
  let ?S2 = "?S1\<lparr>tasks := [THandle first_message]\<rparr>"
  let ?S3 = "?S1\<lparr>sw := answered_world\<rparr>"
  have miss: "localGet toy_client t k = (None, toy_client)" for t k
    by (simp add: localGet_def localGet_read_def)
  have "sys_step ?E ?s ?S0 (?S0\<lparr>issued := (issued ?S0)(seven \<mapsto> (''example.com.'', 1)), sw := asked_world,
      reqs := reqs ?S0 @ [\<lparr>xm_id = ''1-0'', xm_values = [(''data'', marshal_request
        \<lparr>req_id = seven, req_name = ''example.com.'', req_type = 1\<rparr>)]\<rparr>], clients := (clients ?S0)(0 := toy_client)\<rparr>)"
    by (rule sys_step.query, rule query_step.ask [where t = 0 and rep = ROk and u = 7 and random = None])
       (simp_all add: fresh_system_def miss asked_world_def)
  then have 1: "sys_step ?E ?s ?S0 ?S1" by (simp add: fresh_system_def first_message_def fun_upd_idem)
  have 2: "sys_step ?E ?s ?S1 ?S2"
    using sys_step.deliver [of first_message ?S1 ?E ?s] by (simp add: fresh_system_def)
  have "run_state (process ?E ?s False first_message) asked_world = ((), answered_world)"
    by (simp add: answered_world_def prod_eq_iff)
  from reachable_schedule [OF process_schedule [OF this], of ?S2]
  have 3: "reachable ?E ?s ?S2 ?S3" by (simp add: fresh_system_def)
  let ?resp = "zero_response\<lparr>rsp_id := seven, rsp_name := ''example.com.'', rsp_type := 1, rsp_wire := ''wire'',
      rsp_rcode := 0, rsp_resolved_at := 1000\<rparr>"
  have "unmarshal_response (marshal_response ?resp) = Some ?resp"
    by (rule unmarshal_marshal_response)
       (simp add: wf_response_def valid_utf8_ascii newID_ascii in_int64_def zero_response_def)
  moreover have "check_resp ?resp = Inr ?resp" by (simp add: check_resp_def zero_response_def)
  ultimately have "sys_step ?E ?s ?S3 ?S4"
    using sys_step.query [OF query_step.receive [of "Some 1000" "marshal_response ?resp" ?S3 ?resp "''example.com.''" 1 ?resp ?E 0 1000], of ?s]
      first_answer by (simp add: fresh_system_def)
  with reachable_step [OF 1 reachable_step [OF 2 3]] show ?thesis by (rule reachable.step)
qed

section \<open>Witnesses\<close>

theorem served_answers_are_genuine_witness:
  "genuine (mem_env dns_env) (s_res plain_server) ''example.com.'' 1 ''wire''"
  by (rule served_answers_are_genuine [OF mem_strings.redis_strings_axioms plain_deployed fresh_booted first_run])
     simp_all

end
