(* ===== verification/Batch.thy ===== *)
theory Batch
  imports System
begin

text \<open>
  A worker starts a goroutine for every message it reads (\<open>worker\<close> of \<open>server.go\<close>).  This
  theory follows any number of them through any interleaving, among themselves and with
  everything else that goes on in the server, in Redis and in the clients: what each one still
  owes is a multiset, and every step pays off exactly what it sends.
\<close>

section \<open>What a goroutine still owes\<close>

definition decoded :: "xmessage \<Rightarrow> request option" where
  "decoded msg = Option.bind (map_of (xm_values msg) ''data'') unmarshal_request"

abbreviation request_key :: "request \<Rightarrow> string \<times> string \<times> u16" where
  "request_key req \<equiv> (req_id req, req_name req, req_type req)"

abbreviation response_key :: "response \<Rightarrow> string \<times> string \<times> u16" where
  "response_key r \<equiv> (rsp_id r, rsp_name r, rsp_type r)"

fun owes :: "task \<Rightarrow> (string \<times> string \<times> u16) multiset" where
  "owes (THandle msg) = (case decoded msg of None \<Rightarrow> {#} | Some req \<Rightarrow> {#request_key req#})"
| "owes (TLookup i req) = {#request_key req#}"
| "owes (TAnswer i req rep) = {#request_key req#}"
| "owes (TStore i req answer wire t) = {#request_key req#}"
| "owes (TPublish i req answer wire t) = {#request_key req#}"
| "owes (TSend resp) = {#response_key resp#}"
| "owes (TAck i) = {#}"

fun owes_ack :: "task \<Rightarrow> string multiset" where
  "owes_ack (THandle msg) = {#xm_id msg#}"
| "owes_ack (TLookup i req) = {#i#}"
| "owes_ack (TAnswer i req rep) = {#i#}"
| "owes_ack (TStore i req answer wire t) = {#i#}"
| "owes_ack (TPublish i req answer wire t) = {#i#}"
| "owes_ack (TSend resp) = {#}"
| "owes_ack (TAck i) = {#i#}"

text \<open>An upper bound on the steps that are left.\<close>

fun weight :: "task \<Rightarrow> nat" where
  "weight (THandle msg) = 7"
| "weight (TLookup i req) = 6"
| "weight (TAnswer i req rep) = 5"
| "weight (TStore i req answer wire t) = 4"
| "weight (TPublish i req answer wire t) = 3"
| "weight (TSend resp) = 1"
| "weight (TAck i) = 1"

text \<open>The responses and the acknowledgements among a sequence of commands.\<close>

definition sent :: "redis_cmd list \<Rightarrow> redis_cmd list" where
  "sent cs = filter (\<lambda>c. case c of XADD k l p \<Rightarrow> k = StreamResponses | _ \<Rightarrow> False) cs"

definition acked :: "'r Server \<Rightarrow> redis_cmd list \<Rightarrow> string list" where
  "acked s cs = List.map_filter (\<lambda>c. case c of XACK k g i \<Rightarrow> if k = StreamRequests \<and> g = s_group s then Some i else None | _ \<Rightarrow> None) cs"

lemma sent_append [simp]: "sent (cs @ ds) = sent cs @ sent ds"
  and acked_append [simp]: "acked s (cs @ ds) = acked s cs @ acked s ds"
  by (simp_all add: sent_def acked_def List.map_filter_def)

lemma plain_sends_nothing: "list_all plain cs \<Longrightarrow> sent cs = [] \<and> acked s cs = []"
  by (induction cs) (auto simp: sent_def acked_def List.map_filter_def split: redis_cmd.splits)

lemma sent_simps [simp]:
  "sent [] = []" "acked s [] = []" "sent [response_cmd s r] = [response_cmd s r]" "acked s [response_cmd s' r] = []"
  "sent [XACK k g i] = []" "acked s [XACK StreamRequests (s_group s) i] = [i]" "sent [GET k] = []" "acked s [GET k] = []"
  by (simp_all add: sent_def acked_def List.map_filter_def response_cmd_def)

section \<open>Runs\<close>

text \<open>
  \<open>crowd n\<close> is a run in which the goroutines take \<open>n\<close> steps in any order.  In between, the rest
  of the world may change Redis, the clock and the counting queue by any commands but a
  response or an acknowledgement of this server's group.
\<close>

inductive crowd :: "'r env \<Rightarrow> 'r Server \<Rightarrow> task list \<times> 'r world \<Rightarrow> nat \<Rightarrow> task list \<times> 'r world \<Rightarrow> bool"
  for E :: "'r env" and s :: "'r Server" and c0 :: "task list \<times> 'r world" where
  idle: "crowd E s c0 0 c0"
| go: "crowd E s c0 n (xs @ tk # ys, w) \<Longrightarrow> run_state (task_step E s tk) w = (tks, w') \<Longrightarrow>
     crowd E s c0 (Suc n) (xs @ tks @ ys, w')"
| others: "crowd E s c0 n (tks, w) \<Longrightarrow> cmds w' = cmds w @ cs \<Longrightarrow> sent cs = [] \<Longrightarrow> acked s cs = [] \<Longrightarrow>
     crowd E s c0 n (tks, w')"

text \<open>One step: what is sent and what is owed afterwards make up what was owed before.\<close>

definition settles ::
  "'r Server \<Rightarrow> redis_cmd list \<Rightarrow> (string \<times> string \<times> u16) multiset \<Rightarrow> string multiset \<Rightarrow> bool" where
  "settles s cs due acks_due \<longleftrightarrow>
     (\<exists>rs. sent cs = map (response_cmd s) rs \<and> mset (map response_key rs) = due) \<and> mset (acked s cs) = acks_due"

lemma settles_append:
  assumes "settles s cs a b" "settles s ds a' b'"
  shows "settles s (cs @ ds) (a + a') (b + b')"
proof -
  from assms obtain rs rs' where "sent cs = map (response_cmd s) rs" "mset (map response_key rs) = a"
    "sent ds = map (response_cmd s) rs'" "mset (map response_key rs') = a'" by (auto simp: settles_def)
  then have "sent (cs @ ds) = map (response_cmd s) (rs @ rs') \<and> mset (map response_key (rs @ rs')) = a + a'" by simp
  moreover have "mset (acked s (cs @ ds)) = b + b'" using assms by (simp add: settles_def)
  ultimately show ?thesis unfolding settles_def by blast
qed

lemma settles_none: "sent cs = [] \<Longrightarrow> acked s cs = [] \<Longrightarrow> settles s cs {#} {#}"
  by (simp add: settles_def)

lemma settles_plain: "list_all plain cs \<Longrightarrow> settles s cs {#} {#}"
  by (simp add: settles_none plain_sends_nothing)

lemma settles_response: "settles s [response_cmd s r] {#response_key r#} {#}"
  by (auto simp: settles_def intro!: exI [of _ "[r]"])

lemma settles_ack: "settles s [XACK StreamRequests (s_group s) i] {#} {#i#}"
  by (simp add: settles_def)

lemma fresh_response_key [simp]: "rsp_id (fresh_response req) = req_id req" "rsp_name (fresh_response req) = req_name req"
  "rsp_type (fresh_response req) = req_type req"
  by (simp_all add: fresh_response_def)

text \<open>The steps that send neither a response nor an acknowledgement only pass the debt on.\<close>

fun quiet :: "task \<Rightarrow> bool" where
  "quiet (TAnswer i req rep) = (cache_hit rep = None)"
| "quiet (TSend resp) = False"
| "quiet (TAck i) = False"
| "quiet tk = True"

lemma quiet_step:
  assumes "redis_backed E (s_res s)" "quiet tk" "run_state (task_step E s tk) w = (tks, w')"
  obtains cs where "cmds w' = cmds w @ cs" "list_all plain cs"
proof (cases tk)
  case (THandle msg)
  with assms(3) have "cmds w' = cmds w"
    by (auto simp: countQuery_def split: option.splits prod.splits if_splits)
  with that [of "[]"] show ?thesis by simp
next
  case (TLookup i req)
  have "emits plain (task_step E s tk)" unfolding TLookup task_step.simps by (intro emits_rules) simp
  from emitsE [OF this assms(3)] that show ?thesis by metis
next
  case (TAnswer i req rep)
  with assms(2) have "cache_hit rep = None" by simp
  then have "emits plain (task_step E s tk)"
    unfolding TAnswer task_step.simps by (simp add: emits_rules emits_Resolve_plain [OF assms(1)])
  from emitsE [OF this assms(3)] that show ?thesis by metis
next
  case (TStore i req answer wire t)
  have "emits plain (task_step E s tk)" unfolding TStore task_step.simps by (intro emits_rules) simp
  from emitsE [OF this assms(3)] that show ?thesis by metis
next
  case (TPublish i req answer wire t)
  have "emits plain (task_step E s tk)" unfolding TPublish task_step.simps by (intro emits_rules) simp
  from emitsE [OF this assms(3)] that show ?thesis by metis
qed (use assms(2) in simp_all)

abbreviation owed :: "task list \<Rightarrow> (string \<times> string \<times> u16) multiset" where
  "owed tks \<equiv> sum_list (map owes tks)"

abbreviation owed_acks :: "task list \<Rightarrow> string multiset" where
  "owed_acks tks \<equiv> sum_list (map owes_ack tks)"

abbreviation steps_left :: "task list \<Rightarrow> nat" where
  "steps_left tks \<equiv> sum_list (map weight tks)"

lemma quiet_debt:
  assumes "quiet tk" "run_state (task_step E s tk) w = (tks, w')"
  shows "owed tks = owes tk \<and> owed_acks tks = owes_ack tk \<and> steps_left tks < weight tk"
  using assms
  by (cases tk) (auto simp: decoded_def split: option.splits prod.splits sum.splits)

lemma step_settles:
  assumes "redis_backed E (s_res s)" "run_state (task_step E s tk) w = (tks, w')"
  obtains cs due acks_due where "cmds w' = cmds w @ cs" "settles s cs due acks_due"
    "due + owed tks = owes tk" "acks_due + owed_acks tks = owes_ack tk" "steps_left tks < weight tk"
proof (cases "quiet tk")
  case True
  from quiet_step [OF assms(1) True assms(2)] obtain cs where "cmds w' = cmds w @ cs" "list_all plain cs" .
  with quiet_debt [OF True assms(2)] settles_plain [of cs s] that [of cs "{#}" "{#}"] show ?thesis by simp
next
  case False
  then consider (hit) i req rep wire where "tk = TAnswer i req rep" "cache_hit rep = Some wire"
    | (send) resp where "tk = TSend resp" | (ack) i where "tk = TAck i"
    by (cases tk) auto
  then show ?thesis
  proof cases
    case hit
    then obtain r where "cmds w' = cmds w @ [response_cmd s r]" "response_key r = request_key req" "tks = [TAck i]"
      using assms(2) by (auto split: prod.splits)
    with hit settles_response [of s r] that show ?thesis by fastforce
  next
    case send
    with assms(2) have "cmds w' = cmds w @ [response_cmd s resp]" "tks = []" by (auto split: prod.splits)
    with send settles_response [of s resp] that show ?thesis by fastforce
  next
    case ack
    with assms(2) have "cmds w' = cmds w @ [XACK StreamRequests (s_group s) i]" "tks = []" by (auto split: prod.splits)
    with ack settles_ack [of s i] that show ?thesis by fastforce
  qed
qed

lemma crowd_settles:
  assumes "redis_backed E (s_res s)" "crowd E s (tks0, w0) n (tks, w)"
  shows "\<exists>cs due acks_due. cmds w = cmds w0 @ cs \<and> settles s cs due acks_due \<and> due + owed tks = owed tks0 \<and>
    acks_due + owed_acks tks = owed_acks tks0 \<and> n + steps_left tks \<le> steps_left tks0"
  using assms(2)
proof (induction n "(tks, w)" arbitrary: tks w rule: crowd.induct)
  case idle
  then show ?case by (intro exI [of _ "[]"] exI [of _ "{#}"]) (simp add: settles_none)
next
  case (go n xs tk ys w tks w')
  from go.hyps(2) obtain cs due ad where I: "cmds w = cmds w0 @ cs" "settles s cs due ad"
    "due + owed (xs @ tk # ys) = owed tks0" "ad + owed_acks (xs @ tk # ys) = owed_acks tks0"
    "n + steps_left (xs @ tk # ys) \<le> steps_left tks0" by blast
  obtain ds due' ad' where S: "cmds w' = cmds w @ ds" "settles s ds due' ad'" "due' + owed tks = owes tk"
    "ad' + owed_acks tks = owes_ack tk" "steps_left tks < weight tk"
    using step_settles [OF assms(1) go.hyps(3)] by metis
  show ?case
  proof (intro exI [of _ "cs @ ds"] exI [of _ "due + due'"] exI [of _ "ad + ad'"] conjI)
    show "cmds w' = cmds w0 @ cs @ ds" using I(1) S(1) by simp
    show "settles s (cs @ ds) (due + due') (ad + ad')" using I(2) S(2) by (rule settles_append)
    show "due + due' + owed (xs @ tks @ ys) = owed tks0"
      using I(3) by (simp add: S(3) [symmetric] ac_simps)
    show "ad + ad' + owed_acks (xs @ tks @ ys) = owed_acks tks0"
      using I(4) by (simp add: S(4) [symmetric] ac_simps)
    show "Suc n + steps_left (xs @ tks @ ys) \<le> steps_left tks0" using I(5) S(5) by simp
  qed
next
  case (others n tks w w' cs)
  then obtain ds due ad where I: "cmds w = cmds w0 @ ds" "settles s ds due ad"
    "due + owed tks = owed tks0" "ad + owed_acks tks = owed_acks tks0" "n + steps_left tks \<le> steps_left tks0" by blast
  from settles_append [OF I(2) settles_none [OF others.hyps(4,5)]] I others.hyps(3) show ?case
    by (intro exI [of _ "ds @ cs"] exI [of _ due] exI [of _ ad]) simp
qed

lemma batch_debt:
  "owed (map THandle msgs) = mset (map request_key (List.map_filter decoded msgs))"
  "owed_acks (map THandle msgs) = mset (map xm_id msgs)" "steps_left (map THandle msgs) = 7 * length msgs"
  by (induction msgs) (auto simp: List.map_filter_simps split: option.splits)

text \<open>
  The rest of the world, concretely: a step of the whole system is a step of one of the
  goroutines, a new message, or an interference that \<open>crowd\<close> allows.
\<close>

lemma emits_sweep_step:
  assumes "deployed E s"
  shows "emits plain (sweep_step E s p)"
proof -
  note dep = deployedD [OF assms]
  show ?thesis
    by (cases "(E, s, p)" rule: sweep_step.cases)
       (simp_all add: emits_rules emits_Resolve_plain [OF dep(2)] dep(4,5) redisRankStore_def Let_def
          split del: if_split)
qed

lemma sys_step_crowd:
  assumes "deployed E s" "sys_step E s S S'" "crowd E s c0 n (tasks S, sw S)"
  shows "(\<exists>m. crowd E s c0 m (tasks S', sw S')) \<or> (\<exists>msg. S' = S\<lparr>tasks := tasks S @ [THandle msg]\<rparr>)"
proof -
  have other: "crowd E s c0 n (tasks S, w')" if "cmds w' = cmds (sw S) @ cs" "sent cs = []" "acked s cs = []" for w' cs
    using crowd.others [OF assms(3) that] .
  show ?thesis
    using assms(2)
  proof cases
    case query
    then show ?thesis
    proof cases
      case (ask k t name qtype c' i random u payload rep w' x)
      then have "cmds w' = cmds (sw S) @ [XADD StreamRequests None payload]"
        using call_snd(2) [of E "XADD StreamRequests None payload" "sw S"] by simp
      from other [OF this] ask show ?thesis
        by (auto simp: sent_def acked_def List.map_filter_simps StreamRequests_def StreamResponses_def)
    qed (use assms(3) in auto)
  next
    case (work xs tk ys tks w')
    with assms(3) crowd.go show ?thesis by fastforce
  next
    case (sweep p w')
    obtain cs where "cmds w' = cmds (sw S) @ cs" "list_all plain cs"
      using emitsE [OF emits_sweep_step [OF assms(1)] sweep(2)] by metis
    with other [of w' cs] sweep plain_sends_nothing [of cs s] show ?thesis by auto
  next
    case (count batch evs rest w')
    then obtain ms where "cmds w' = cmds (sw S) @ map (ZINCRBY SetQueryCounts 1) ms"
      using runCounter_account unfolding accounted_def by blast
    from other [OF this] count show ?thesis by (auto simp: sent_def acked_def List.map_filter_def)
  next
    case (pass n')
    then show ?thesis using other [of "sw S'" "[]"] by auto
  qed (use assms(3) in auto)
qed

section \<open>Properties\<close>

text \<open>
  C4: A batch is served completely under any interleaving.  Let a worker start a goroutine for
  each message of a batch, and let these run in any order, in between anything else that the
  rest of the world does.  Then at every moment the responses sent so far, together with those
  still owed, are exactly one for each well-formed request, with its ID, name and type; the
  same holds for the acknowledgements of all messages; as long as a goroutine is left, one can
  go on; and after at most seven steps for each message none is left, so that every request
  has been answered, and every message acknowledged, exactly once.
\<close>

theorem batch_answered_once:
  assumes "redis_backed E (s_res s)" and "crowd E s (map THandle msgs, w0) n (tks, w)"
  shows "\<exists>cs rs. cmds w = cmds w0 @ cs \<and> sent cs = map (response_cmd s) rs \<and>
    mset (map response_key rs) + owed tks = mset (map request_key (List.map_filter decoded msgs)) \<and>
    mset (acked s cs) + owed_acks tks = mset (map xm_id msgs) \<and>
    n \<le> 7 * length msgs \<and> (n = 7 * length msgs \<longrightarrow> tks = []) \<and>
    (tks \<noteq> [] \<longrightarrow> (\<exists>c. crowd E s (map THandle msgs, w0) (Suc n) c))"
proof -
  obtain cs rs where I: "cmds w = cmds w0 @ cs" "sent cs = map (response_cmd s) rs"
    "mset (map response_key rs) + owed tks = owed (map THandle msgs)"
    "mset (acked s cs) + owed_acks tks = owed_acks (map THandle msgs)"
    "n + steps_left tks \<le> steps_left (map THandle msgs)"
    using crowd_settles [OF assms] unfolding settles_def by blast
  have "tks = []" if "steps_left tks = 0"
  proof (rule ccontr)
    assume "tks \<noteq> []"
    then obtain tk ys where "tks = tk # ys" by (cases tks) auto
    with that show False by (cases tk) simp_all
  qed
  moreover have "\<exists>c. crowd E s (map THandle msgs, w0) (Suc n) c" if "tks \<noteq> []"
  proof -
    from that obtain tk ys where t: "tks = [] @ tk # ys" by (cases tks) auto
    show ?thesis using crowd.go [OF assms(2) [unfolded t] prod.collapse [symmetric]] by blast
  qed
  ultimately show ?thesis using I unfolding batch_debt
    by (intro exI [of _ cs] exI [of _ rs]) auto
qed

section \<open>Witnesses\<close>

text \<open>Two messages, one of them without data, handled one after the other.\<close>

lemma crowd_schedule:
  "schedule E s c c' \<Longrightarrow> crowd E s c0 n (fst c @ ys, snd c) \<Longrightarrow> \<exists>m. crowd E s c0 m (fst c' @ ys, snd c')"
proof (induction arbitrary: n rule: schedule.induct)
  case (go tk w tks w' xs zs c)
  from go.prems have "crowd E s c0 n (xs @ tk # (zs @ ys), w)" by simp
  from crowd.go [OF this go.hyps(1)] show ?case by (intro go.IH [of "Suc n"]) simp
qed auto

definition empty_message :: xmessage where
  "empty_message = \<lparr>xm_id = ''2-0'', xm_values = []\<rparr>"

theorem batch_answered_once_witness:
  "\<exists>(w :: mem world) cs rs. cmds w = cmds asked_world @ cs \<and> sent cs = map (response_cmd plain_server) rs \<and>
    map response_key rs = [(seven, ''example.com.'', 1)] \<and> mset (acked plain_server cs) = {#''1-0'', ''2-0''#}"
proof -
  let ?E = "mem_env dns_env" and ?c0 = "(map THandle [first_message, empty_message], asked_world)"
  let ?w2 = "snd (run_state (process ?E plain_server False empty_message) answered_world)"
  have 1: "schedule ?E plain_server ([THandle first_message], asked_world) ([], answered_world)"
    by (rule process_schedule [where late = False and u = "()"]) (simp add: answered_world_def prod_eq_iff)
  have 2: "schedule ?E plain_server ([THandle empty_message], answered_world) ([], ?w2)"
    by (rule process_schedule [where late = False and u = "()"]) (simp add: prod_eq_iff)
  obtain m where "crowd ?E plain_server ?c0 m ([THandle empty_message], answered_world)"
    using crowd_schedule [OF 1, of ?c0 0 "[THandle empty_message]"] crowd.idle [of ?E plain_server ?c0] by auto
  then obtain n where run: "crowd ?E plain_server ?c0 n ([], ?w2)"
    using crowd_schedule [OF 2, of ?c0 m "[]"] by auto
  have backed: "redis_backed ?E (s_res plain_server)" using plain_deployed by (simp add: deployed_def)
  have dec: "List.map_filter decoded [first_message, empty_message] = [\<lparr>req_id = seven, req_name = ''example.com.'', req_type = 1\<rparr>]"
    by (simp add: List.map_filter_simps decoded_def first_message_def empty_message_def unmarshal_marshal_request
        wf_request_def valid_utf8_ascii newID_ascii)
  have ids: "map xm_id [first_message, empty_message] = [''1-0'', ''2-0'']"
    by (simp add: first_message_def empty_message_def)
  obtain cs rs where "cmds ?w2 = cmds asked_world @ cs" "sent cs = map (response_cmd plain_server) rs"
    and keys: "mset (map response_key rs) = {#(seven, ''example.com.'', 1)#}"
    and acks: "mset (acked plain_server cs) = {#''1-0'', ''2-0''#}"
    using batch_answered_once [OF backed run] unfolding dec ids
    by (elim exE conjE) (simp only: list.map sum_list.Nil add_0_right mset.simps request.simps)
  moreover from keys have "map response_key rs = [(seven, ''example.com.'', 1)]" by (simp only: mset_single_iff)
  ultimately show ?thesis by (intro exI conjI)
qed

end
