(* ===== verification/Stale.thy ===== *)
theory Stale
  imports System
begin

text \<open>
  A run of the whole system in which the versions that are meant to order competing writes to
  a client's cache (\<open>ResolvedAt\<close> of \<open>proto.go\<close>, \<open>localSet\<close> of \<open>client.go\<close>) order them the wrong way.
\<close>

text \<open>An upstream whose answer changes at step 20, and a clock of one second per step.\<close>

definition aging_env :: "mem env" where
  "aging_env = (mem_env dns_env)\<lparr>
     Exchange := \<lambda>n net d m up. Inr (two_ip_msg\<lparr>m_id := if n < 20 then 1 else 2\<rparr>),
     Pack := \<lambda>m. Inr (if m_id m = 1 then ''old'' else ''new''), clock := \<lambda>n. int n * second\<rparr>"

definition aging_server :: "mem Server" where
  "aging_server = Server_New aging_env (Resolver_New ''192.0.2.53:53'' ''udp'' second) ''dns'' ''resolver''
     (300 * second) (60 * second) 1000 2 (30 * second) 0 0"

definition hot_world :: "mem world" where
  "hot_world = \<lparr>store = mem_empty\<lparr>hashes := [HashHotDomains \<mapsto> ([(''example.com'', ''30'')], None)]\<rparr>,
     cmds = [], ticks = 0, countCh = []\<rparr>"

lemma aging_fields [simp]:
  "s_res aging_server = Resolver_New ''192.0.2.53:53'' ''udp'' second"
  "s_resolve aging_server = Resolve aging_env (Resolver_New ''192.0.2.53:53'' ''udp'' second)"
  "s_rank aging_server = Some (redisRankStore aging_env)" "s_cacheTTL aging_server = 300 * second"
  "s_respMax aging_server = 1000" "s_hasCountCh aging_server" "s_topN aging_server = 0" "s_halfLife aging_server = 0"
  "redis aging_env = mem_redis" "clock aging_env n = int n * second" "Fqdn aging_env ''example.com'' = ''example.com.''"
  by (simp_all add: aging_server_def Server_New_def Let_def aging_env_def dns_env_def stub_env_def)

lemma aging_resolve:
  "run_state (Resolve aging_env (Resolver_New a net d) name q) w =
     (Inr (two_ip_msg\<lparr>m_id := if ticks w < 20 then 1 else 2\<rparr>), w\<lparr>ticks := Suc (ticks w)\<rparr>)"
  by (simp add: Resolve_def Resolver_New_def aging_env_def)

lemma aging_lifetime:
  "cache_lifetime aging_server (two_ip_msg\<lparr>m_id := i\<rparr>) = 300 * second"
  "m_rcode (two_ip_msg\<lparr>m_id := i\<rparr>) = 0"
  "Pack aging_env (two_ip_msg\<lparr>m_id := i\<rparr>) = Inr (if i = 1 then ''old'' else ''new'')"
proof -
  have "MinTTL (two_ip_msg\<lparr>m_id := i\<rparr>) = MinTTL two_ip_msg" by (simp add: MinTTL_def)
  moreover have "MinTTL two_ip_msg = 300" by code_simp
  ultimately show "cache_lifetime aging_server (two_ip_msg\<lparr>m_id := i\<rparr>) = 300 * second"
    by (simp add: cache_lifetime_def two_ip_msg_def dns_constants Let_def dur_mul_def wrap64_id in_int64_def second_def)
qed (simp_all add: two_ip_msg_def Let_def aging_env_def)

abbreviation hot_key :: string where "hot_key \<equiv> CacheKey ''example.com.'' 1"

definition hot_update :: "bytes \<Rightarrow> nat \<Rightarrow> json_text" where
  "hot_update wire n = marshal_update \<lparr>upd_name = ''example.com.'', upd_type = 1, upd_rcode = 0,
     upd_resolved_at = int n * second, upd_wire = wire\<rparr>"

text \<open>A sweep that finds the hot domain due: one resolution, cached and broadcast.\<close>

lemma hot_sweep:
  assumes "hashes (store w) HashHotDomains = Some ([(''example.com'', ''30'')], None)"
    and "case nxt ''example.com.'' of None \<Rightarrow> True | Some t \<Rightarrow> \<not> int (Suc (ticks w)) * second < t"
    and "n = (if nxt ''example.com.'' = None then Suc (ticks w) else Suc (Suc (ticks w)))"
    and "wire = (if n < 20 then ''old'' else ''new'')"
  shows "run_state (prefetchSweep aging_env aging_server nxt) w =
    (nxt(''example.com.'' \<mapsto> int (n + 4) * second + 30 * second),
     w\<lparr>store := (store w)\<lparr>strs := (strs (store w))(hot_key \<mapsto> (wire, int (Suc n) * second + 300 * second))\<rparr>,
       cmds := cmds w @ [HGETALL HashHotDomains, SET hot_key wire (300 * second), PUBLISH ChannelUpdates (hot_update wire (n + 2))],
       ticks := n + 5\<rparr>)"
proof -
  have "to_lower ''example.com.'' = ''example.com.''" "parse_int (trim_space ''30'') = Some 30" by code_simp+
  note eval = this prefetchSweep_def sweep_domain_def prefetchDynamic_def aging_resolve aging_lifetime cache_def publish_def
      dns_constants mem_alist_def hot_update_def dur_mul_def wrap64_id in_int64_def second_def Let_def
  show ?thesis
  proof (cases "nxt ''example.com.''")
    case None
    with assms show ?thesis by (simp add: eval)
  next
    case (Some t)
    with assms show ?thesis by (simp add: eval)
  qed
qed

definition hot_system :: "mem system" where
  "hot_system = fresh_system\<lparr>sw := hot_world\<rparr>"

abbreviation hot_request :: request where
  "hot_request \<equiv> \<lparr>req_id = seven, req_name = ''example.com.'', req_type = 1\<rparr>"

abbreviation hot_message :: xmessage where
  "hot_message \<equiv> \<lparr>xm_id = ''1-0'', xm_values = [(''data'', marshal_request hot_request)]\<rparr>"

definition stale_response :: response where
  "stale_response = zero_response\<lparr>rsp_id := seven, rsp_name := ''example.com.'', rsp_type := 1, rsp_wire := ''old'',
     rsp_rcode := 0, rsp_resolved_at := 47 * second\<rparr>"

text \<open>The world after each step that touches it.\<close>

definition swept :: "mem world" where
  "swept = hot_world\<lparr>store := (store hot_world)\<lparr>strs := [hot_key \<mapsto> (''old'', 302 * second)]\<rparr>,
     cmds := [HGETALL HashHotDomains, SET hot_key ''old'' (300 * second), PUBLISH ChannelUpdates (hot_update ''old'' 3)],
     ticks := 6\<rparr>"

definition looked_up :: "mem world" where
  "looked_up = swept\<lparr>cmds := cmds swept @ [XADD StreamRequests None (marshal_request hot_request), GET hot_key],
     ticks := 9, countCh := [countMember aging_env ''example.com.'' 1]\<rparr>"

definition refreshed :: "mem world" where
  "refreshed = looked_up\<lparr>store := (store looked_up)\<lparr>strs := [hot_key \<mapsto> (''new'', 343 * second)]\<rparr>,
     cmds := cmds looked_up @ [HGETALL HashHotDomains, SET hot_key ''new'' (300 * second),
       PUBLISH ChannelUpdates (hot_update ''new'' 44)],
     ticks := 47\<rparr>"

lemma first_sweep: "run_state (prefetchSweep aging_env aging_server Map.empty) hot_world =
    ([''example.com.'' \<mapsto> 35 * second], swept)"
  by (subst hot_sweep [where n = 1 and wire = "''old''"])
     (simp_all add: hot_world_def swept_def mem_empty_def hot_update_def)

lemma second_sweep: "run_state (prefetchSweep aging_env aging_server [''example.com.'' \<mapsto> 35 * second]) (looked_up\<lparr>ticks := 40\<rparr>) =
    ([''example.com.'' \<mapsto> 76 * second], refreshed)"
  by (subst hot_sweep [where n = 42 and wire = "''new''"])
     (simp_all add: hot_world_def swept_def looked_up_def refreshed_def mem_empty_def second_def)

lemma stale_lookup:
  "run_state (call aging_env (XADD StreamRequests None (marshal_request hot_request))) swept =
     (ROk, swept\<lparr>cmds := cmds swept @ [XADD StreamRequests None (marshal_request hot_request)], ticks := 7\<rparr>)"
  "run_state (task_step aging_env aging_server (THandle hot_message))
     (swept\<lparr>cmds := cmds swept @ [XADD StreamRequests None (marshal_request hot_request)], ticks := 7\<rparr>) =
     ([TLookup ''1-0'' hot_request], looked_up\<lparr>cmds := cmds swept @ [XADD StreamRequests None (marshal_request hot_request)],
       ticks := 7\<rparr>)"
  "run_state (task_step aging_env aging_server (TLookup ''1-0'' hot_request))
     (looked_up\<lparr>cmds := cmds swept @ [XADD StreamRequests None (marshal_request hot_request)], ticks := 7\<rparr>) =
     ([TAnswer ''1-0'' hot_request (RBytes ''old'')], looked_up)"
proof -
  have "unmarshal_request (marshal_request hot_request) = Some hot_request"
    by (rule unmarshal_marshal_request) (simp add: wf_request_def valid_utf8_ascii newID_ascii)
  then show "run_state (task_step aging_env aging_server (THandle hot_message))
     (swept\<lparr>cmds := cmds swept @ [XADD StreamRequests None (marshal_request hot_request)], ticks := 7\<rparr>) =
     ([TLookup ''1-0'' hot_request], looked_up\<lparr>cmds := cmds swept @ [XADD StreamRequests None (marshal_request hot_request)],
       ticks := 7\<rparr>)"
    by (simp add: countQuery_def looked_up_def swept_def hot_world_def countQueueSize_def)
qed (simp_all add: looked_up_def swept_def hot_world_def mem_str_def second_def)

lemma stale_answer:
  "run_state (task_step aging_env aging_server (TAnswer ''1-0'' hot_request (RBytes ''old''))) refreshed =
     ([TAck ''1-0''], refreshed\<lparr>cmds := cmds refreshed @ [XADD StreamResponses (Some 1000) (marshal_response stale_response)],
       ticks := 49\<rparr>)"
  by (simp add: refreshed_def looked_up_def swept_def hot_world_def cache_hit_def response_cmd_def fresh_response_def
      stale_response_def aging_env_def dns_env_def)

text \<open>The states of the run.\<close>

definition state_A :: "mem system" where
  "state_A = hot_system\<lparr>sweeper := SWaiting [''example.com.'' \<mapsto> 35 * second], sw := swept\<rparr>"

definition state_B :: "mem system" where
  "state_B = state_A\<lparr>issued := [seven \<mapsto> (''example.com.'', 1)],
     sw := swept\<lparr>cmds := cmds swept @ [XADD StreamRequests None (marshal_request hot_request)], ticks := 7\<rparr>,
     reqs := [hot_message]\<rparr>"

definition state_C :: "mem system" where
  "state_C = state_B\<lparr>tasks := [TAnswer ''1-0'' hot_request (RBytes ''old'')], sw := looked_up\<rparr>"

definition state_D :: "mem system" where
  "state_D = state_C\<lparr>sweeper := SWaiting [''example.com.'' \<mapsto> 76 * second], sw := refreshed\<rparr>"

definition state_F :: "mem system" where
  "state_F = state_D\<lparr>clients := (clients state_D)(0 := warm aging_env toy_client 0 (hot_update ''new'' 44))\<rparr>"

definition state_G :: "mem system" where
  "state_G = state_F\<lparr>tasks := [TAck ''1-0''], sw := refreshed\<lparr>cmds := cmds refreshed @
     [XADD StreamResponses (Some 1000) (marshal_response stale_response)], ticks := 49\<rparr>\<rparr>"

definition state_H :: "mem system" where
  "state_H = state_G\<lparr>clients := (clients state_G)(0 := localSet aging_env (clients state_G 0) 0 hot_key ''old'' (47 * second)),
     served := served state_G @ [(0, ''example.com.'', 1, ''old'')]\<rparr>"

lemmas state_defs = hot_system_def fresh_system_def state_A_def state_B_def state_C_def state_D_def state_F_def
  state_G_def state_H_def

lemma run_to_request:
  "reachable aging_env aging_server hot_system state_A" "sys_step aging_env aging_server state_A state_B"
proof -
  show "reachable aging_env aging_server hot_system state_A"
    using reachable_sweep [of aging_env aging_server Map.empty hot_system] first_sweep by (simp add: state_defs)
  have miss: "localGet toy_client t k = (None, toy_client)" for t k
    by (simp add: localGet_def localGet_read_def)
  have "sys_step aging_env aging_server state_A (state_A\<lparr>issued := (issued state_A)(seven \<mapsto> (''example.com.'', 1)),
      sw := swept\<lparr>cmds := cmds swept @ [XADD StreamRequests None (marshal_request hot_request)], ticks := 7\<rparr>,
      reqs := reqs state_A @ [hot_message], clients := (clients state_A)(0 := toy_client)\<rparr>)"
    by (rule sys_step.query, rule query_step.ask [where t = 0 and rep = ROk and u = 7 and random = None])
       (simp_all add: state_defs miss stale_lookup(1) del: run_call)
  then show "sys_step aging_env aging_server state_A state_B" by (simp add: state_defs fun_upd_idem)
qed

lemma run_to_lookup: "reachable aging_env aging_server state_B state_C"
proof -
  have c1: "sys_step aging_env aging_server state_B (state_B\<lparr>tasks := [THandle hot_message]\<rparr>)"
    using sys_step.deliver [of hot_message state_B aging_env aging_server] by (simp add: state_defs)
  have sw: "sw state_B = swept\<lparr>cmds := cmds swept @ [XADD StreamRequests None (marshal_request hot_request)], ticks := 7\<rparr>"
    by (simp add: state_B_def)
  have "schedule aging_env aging_server ([THandle hot_message], sw state_B)
      ([TAnswer ''1-0'' hot_request (RBytes ''old'')], looked_up)"
    unfolding sw by (rule schedule_one [OF stale_lookup(2) schedule_one [OF stale_lookup(3) schedule.idle]])
  from reachable_schedule [OF this, of "state_B\<lparr>tasks := [THandle hot_message]\<rparr>"] c1 show ?thesis
    by (intro reachable_step [OF c1]) (simp add: state_defs)
qed

lemma run_to_update: "reachable aging_env aging_server state_C state_F"
proof -
  let ?C = "state_C\<lparr>sw := looked_up\<lparr>ticks := 40\<rparr>\<rparr>"
  have "sys_step aging_env aging_server state_C ?C"
    using sys_step.pass [of state_C 40 aging_env aging_server] by (simp add: state_defs looked_up_def)
  moreover have "reachable aging_env aging_server ?C state_D"
    using reachable_sweep [of aging_env aging_server "[''example.com.'' \<mapsto> 35 * second]" ?C] second_sweep
    by (simp add: state_defs)
  moreover have "sys_step aging_env aging_server state_D state_F"
    using sys_step.push [of "hot_update ''new'' 44" state_D aging_env aging_server 0 0] by (simp add: state_defs refreshed_def)
  ultimately show ?thesis by (meson reachable_step reachable.step)
qed

lemma run_to_stale: "reachable aging_env aging_server state_F state_H"
proof -
  have g: "sys_step aging_env aging_server state_F state_G"
    using sys_step.work [of state_F "[]" "TAnswer ''1-0'' hot_request (RBytes ''old'')" "[]" aging_env aging_server]
      stale_answer by (simp add: state_defs del: task_step.simps)
  have "unmarshal_response (marshal_response stale_response) = Some stale_response"
    by (rule unmarshal_marshal_response)
       (simp add: stale_response_def wf_response_def valid_utf8_ascii newID_ascii in_int64_def zero_response_def second_def)
  then have "sys_step aging_env aging_server state_G state_H"
    using sys_step.query [OF query_step.receive [of "Some 1000" "marshal_response stale_response" state_G stale_response
        "''example.com.''" 1 stale_response aging_env 0 0], of aging_server]
    by (simp add: state_defs stale_response_def check_resp_def zero_response_def)
  with g show ?thesis by (meson reachable_step reachable.start)
qed

lemma client_before: "clients state_F 0 = localSet aging_env toy_client 0 hot_key ''new'' (44 * second)"
proof -
  have "unmarshal_update (hot_update ''new'' 44) = Some \<lparr>upd_name = ''example.com.'', upd_type = 1, upd_rcode = 0,
      upd_resolved_at = 44 * second, upd_wire = ''new''\<rparr>"
    unfolding hot_update_def
    by (subst unmarshal_marshal_update) (simp_all add: wf_update_def valid_utf8_ascii in_int64_def second_def)
  then show ?thesis by (simp add: state_F_def warm_def)
qed

lemma client_after:
  "clients state_H 0 = localSet aging_env (localSet aging_env toy_client 0 hot_key ''new'' (44 * second)) 0 hot_key ''old'' (47 * second)"
  using client_before by (simp add: state_H_def state_G_def)

text \<open>
  C25: A stale answer can overwrite a fresher one.  The server stamps a cache hit with the time
  of the reply, not with the time the answer was resolved.  A handler that reads the cache just
  before a prefetch sweep refreshes it therefore sends the old answer under a newer version:
  the client that has already taken the fresh answer from the update channel replaces it by
  the old one.  From a start over an empty cache, the system reaches a state in which the client holds the
  fresh answer, and from there one in which it holds the old one, although that was broadcast
  with an earlier version.
\<close>

theorem stale_cache_hit_overwrites_fresher_update:
  "booted aging_env mem_str hot_system \<and>
   (\<exists>S1 S2 e1 e2 v0. reachable aging_env aging_server hot_system S1 \<and> reachable aging_env aging_server S1 S2 \<and>
      c_local (clients S1 0) hot_key = Some e1 \<and> c_local (clients S2 0) hot_key = Some e2 \<and>
      le_wire e1 = ''new'' \<and> le_wire e2 = ''old'' \<and> v0 < le_resolvedAt e1 \<and> le_resolvedAt e1 < le_resolvedAt e2 \<and>
      PUBLISH ChannelUpdates (marshal_update \<lparr>upd_name = ''example.com.'', upd_type = 1, upd_rcode = 0,
        upd_resolved_at = v0, upd_wire = ''old''\<rparr>) \<in> set (cmds (sw S1)))"
proof (intro conjI)
  show "booted aging_env mem_str hot_system"
    by (simp add: booted_def state_defs hot_world_def mem_str_def mem_empty_def)
  have S1: "reachable aging_env aging_server hot_system state_F"
    by (intro reachable_trans [OF run_to_request(1)] reachable_step [OF run_to_request(2)]
        reachable_trans [OF run_to_lookup run_to_update])
  have "PUBLISH ChannelUpdates (hot_update ''old'' 3) \<in> set (cmds (sw state_F))"
    by (simp add: state_F_def state_D_def refreshed_def looked_up_def swept_def)
  moreover obtain e1 where "c_local (clients state_F 0) hot_key = Some e1" "le_wire e1 = ''new''" "le_resolvedAt e1 = 44 * second"
    unfolding client_before by (simp add: localSet_def Let_def)
  moreover obtain e2 where "c_local (clients state_H 0) hot_key = Some e2" "le_wire e2 = ''old''" "le_resolvedAt e2 = 47 * second"
    unfolding client_after by (simp add: localSet_def Let_def second_def)
  moreover have "3 * second < 44 * second" "44 * second < 47 * second" by (simp_all add: second_def)
  ultimately show "\<exists>S1 S2 e1 e2 v0. reachable aging_env aging_server hot_system S1 \<and> reachable aging_env aging_server S1 S2 \<and>
      c_local (clients S1 0) hot_key = Some e1 \<and> c_local (clients S2 0) hot_key = Some e2 \<and>
      le_wire e1 = ''new'' \<and> le_wire e2 = ''old'' \<and> v0 < le_resolvedAt e1 \<and> le_resolvedAt e1 < le_resolvedAt e2 \<and>
      PUBLISH ChannelUpdates (marshal_update \<lparr>upd_name = ''example.com.'', upd_type = 1, upd_rcode = 0,
        upd_resolved_at = v0, upd_wire = ''old''\<rparr>) \<in> set (cmds (sw S1))"
    using S1 run_to_stale unfolding hot_update_def by (metis of_nat_numeral)
qed

end
