(* ===== verification/Icmp.thy ===== *)
theory Icmp
  imports NetIP
begin

text \<open>
  \<open>internal/resolver/icmp.go\<close>: the ICMP echo probe.  The packages \<open>golang.org/x/net/icmp\<close>,
  \<open>ipv4\<close> and \<open>ipv6\<close> are the record \<open>icmp_lib\<close>, an argument of the probe.  One round of its loop
  is an \<open>attempt\<close>: what the context, the socket and the clock show during that round.
\<close>

section \<open>Messages and the library\<close>

text \<open>The interface \<open>icmp.Type\<close> holds a value of one of two Go types; equality compares both.\<close>

datatype icmp_type = V4Type nat | V6Type nat

datatype icmp_body = Echo (echo_id: int) (echo_seq: int) (echo_data: bytes) | OtherBody

record icmp_msg =
  im_type :: icmp_type
  im_code :: int
  im_body :: icmp_body

record icmp_lib =
  ListenPacket :: "string \<Rightarrow> string option"
  MarshalIcmp :: "icmp_msg \<Rightarrow> string + bytes"
  ParseMessage :: "int \<Rightarrow> bytes \<Rightarrow> string + icmp_msg"
  getpid :: nat

text \<open>
  One round: the context's error at its start, the time of sending, the error of \<open>WriteTo\<close>, the
  time left until the context's deadline if it has one, and the packets \<open>ReadFrom\<close> delivers
  (with the time of each) before a read deadline of the given length.
\<close>

record attempt =
  at_ctx :: "string option"
  at_sent :: timestamp
  at_write :: "string option"
  at_remaining :: "duration option"
  at_packets :: "duration \<Rightarrow> (bytes \<times> timestamp) list"

record ping_setup =
  ps_raw :: bool
  ps_proto :: int
  ps_req :: icmp_type
  ps_reply :: icmp_type
  ps_id :: int

section \<open>The probe\<close>

text \<open>The conversions \<open>ipv4.ICMPType(ipv6.ICMPTypeEchoRequest)\<close> keep the number, not the type.\<close>

definition echo_types :: "bool \<Rightarrow> icmp_type \<times> icmp_type" where
  "echo_types v4 = (if v4 then (V4Type 8, V4Type 0) else (V4Type 128, V4Type 129))"

definition ping_networks :: "bool \<Rightarrow> string \<times> string \<times> int" where
  "ping_networks v4 =
     (if v4 then (''ip4:icmp'', ''udp4'', 1) else (''ip6:ipv6-icmp'', ''udp6'', 58))"

definition echo_ident :: "nat \<Rightarrow> u32 \<Rightarrow> int" where
  "echo_ident pid seq = (int pid + uint seq) mod 65536"

definition read_wait :: "duration option \<Rightarrow> duration" where
  "read_wait rem =
     (case rem of None \<Rightarrow> 150 * millisecond
      | Some r \<Rightarrow> if r < 150 * millisecond then r else 150 * millisecond)"

definition our_reply :: "ping_setup \<Rightarrow> int \<Rightarrow> string + icmp_msg \<Rightarrow> bool" where
  "our_reply s seq parsed =
     (case parsed of
        Inl err \<Rightarrow> False
      | Inr rm \<Rightarrow>
          if im_type rm \<noteq> ps_reply s then False
          else
            (case im_body rm of
               OtherBody \<Rightarrow> False
             | Echo i sq d \<Rightarrow> sq = seq \<and> \<not> (ps_raw s \<and> i \<noteq> ps_id s)))"

fun ping_reads ::
  "icmp_lib \<Rightarrow> ping_setup \<Rightarrow> int \<Rightarrow> timestamp \<Rightarrow> (bytes \<times> timestamp) list \<Rightarrow> duration option" where
  "ping_reads L s seq sent [] = None"
| "ping_reads L s seq sent ((b, t) # ps) =
     (if our_reply s seq (ParseMessage L (ps_proto s) b) then Some (t - sent)
      else ping_reads L s seq sent ps)"

definition echo_request :: "ping_setup \<Rightarrow> int \<Rightarrow> icmp_msg" where
  "echo_request s seq =
     \<lparr>im_type = ps_req s, im_code = 0, im_body = Echo (ps_id s) seq ''redis-dns race probe''\<rparr>"

text \<open>The loop over sequence numbers; \<open>None\<close> means it is still running after these rounds.\<close>

fun ping_loop ::
  "icmp_lib \<Rightarrow> ping_setup \<Rightarrow> int \<Rightarrow> attempt list \<Rightarrow> (string + duration) option" where
  "ping_loop L s seq [] = None"
| "ping_loop L s seq (a # as) =
     (case at_ctx a of
        Some err \<Rightarrow> Some (Inl err)
      | None \<Rightarrow>
          (case MarshalIcmp L (echo_request s seq) of
             Inl err \<Rightarrow> Some (Inl err)
           | Inr wire \<Rightarrow>
               (case at_write a of
                  Some err \<Rightarrow> Some (Inl err)
                | None \<Rightarrow>
                    (case ping_reads L s seq (at_sent a)
                            (at_packets a (read_wait (at_remaining a))) of
                       Some rtt \<Rightarrow> Some (Inr rtt)
                     | None \<Rightarrow> ping_loop L s (seq + 1) as))))"

text \<open>\<open>icmpSeq\<close> is the package's counter; the probe returns it incremented.\<close>

definition icmpPing ::
  "icmp_lib \<Rightarrow> u32 \<Rightarrow> ip \<Rightarrow> attempt list \<Rightarrow> (string + duration) option \<times> u32" where
  "icmpPing L icmpSeq p as =
     (let v4 = To4 p \<noteq> nil_ip;
          (rawNet, udpNet, proto) = ping_networks v4;
          (reqType, replyType) = echo_types v4;
          go = (\<lambda>raw. (ping_loop L \<lparr>ps_raw = raw, ps_proto = proto, ps_req = reqType,
                                    ps_reply = replyType, ps_id = echo_ident (getpid L) (icmpSeq + 1)\<rparr>
                         1 as, icmpSeq + 1))
      in case ListenPacket L rawNet of
           None \<Rightarrow> go True
         | Some e \<Rightarrow>
             (case ListenPacket L udpNet of
                Some err \<Rightarrow> (Some (Inl err), icmpSeq)
              | None \<Rightarrow> go False))"

section \<open>What is documented of the library\<close>

text \<open>\<open>ParseMessage\<close> yields a type of the protocol it is told to parse.\<close>

definition parses_by_protocol :: "icmp_lib \<Rightarrow> bool" where
  "parses_by_protocol L \<longleftrightarrow>
     (\<forall>b m. ParseMessage L 58 b = Inr m \<longrightarrow> (\<exists>n. im_type m = V6Type n)) \<and>
     (\<forall>b m. ParseMessage L 1 b = Inr m \<longrightarrow> (\<exists>n. im_type m = V4Type n))"

text \<open>A round in which nothing fails and no packet is taken for our reply.\<close>

definition fruitless :: "icmp_lib \<Rightarrow> ping_setup \<Rightarrow> int \<Rightarrow> attempt \<Rightarrow> bool" where
  "fruitless L s seq a \<longleftrightarrow>
     at_ctx a = None \<and> at_write a = None \<and>
     (\<forall>(b, t) \<in> set (at_packets a (read_wait (at_remaining a))).
        \<not> our_reply s seq (ParseMessage L (ps_proto s) b))"

section \<open>Lemmas\<close>

lemma ping_reads_Some:
  "ping_reads L s seq sent ps = Some rtt \<Longrightarrow>
   \<exists>(b, t) \<in> set ps. our_reply s seq (ParseMessage L (ps_proto s) b) \<and> rtt = t - sent"
  by (induction L s seq sent ps rule: ping_reads.induct) (auto split: if_splits)

lemma ping_reads_None:
  "ping_reads L s seq sent ps = None \<longleftrightarrow>
   (\<forall>(b, t) \<in> set ps. \<not> our_reply s seq (ParseMessage L (ps_proto s) b))"
  by (induction L s seq sent ps rule: ping_reads.induct) auto

lemma ping_loop_success:
  "ping_loop L s seq as = Some (Inr rtt) \<Longrightarrow>
   \<exists>k < length as. \<exists>b t. (b, t) \<in> set (at_packets (as ! k) (read_wait (at_remaining (as ! k)))) \<and>
     our_reply s (seq + int k) (ParseMessage L (ps_proto s) b) \<and> rtt = t - at_sent (as ! k)"
proof (induction L s seq as rule: ping_loop.induct)
  case (2 L s seq a as)
  show ?case
  proof (cases "ping_reads L s seq (at_sent a) (at_packets a (read_wait (at_remaining a)))")
    case None
    with "2.prems" obtain wire where ok: "at_ctx a = None" "MarshalIcmp L (echo_request s seq) = Inr wire"
        "at_write a = None" "ping_loop L s (seq + 1) as = Some (Inr rtt)"
      by (auto split: option.splits sum.splits)
    from "2.IH" [OF ok(1,2,3) None ok(4)] obtain k b t where
      "k < length as" "(b, t) \<in> set (at_packets (as ! k) (read_wait (at_remaining (as ! k))))"
      "our_reply s (seq + 1 + int k) (ParseMessage L (ps_proto s) b)" "rtt = t - at_sent (as ! k)"
      by blast
    then show ?thesis by (intro exI [of _ "Suc k"]) (auto simp: algebra_simps)
  next
    case (Some r)
    with "2.prems" have "r = rtt" by (auto split: option.splits sum.splits)
    with ping_reads_Some [OF Some] show ?thesis by (intro exI [of _ 0]) auto
  qed
qed simp

lemma ping_loop_fruitless:
  assumes "\<And>sq. \<exists>wire. MarshalIcmp L (echo_request s sq) = Inr wire"
    and "\<And>k. k < length as \<Longrightarrow> fruitless L s (seq + int k) (as ! k)"
  shows "ping_loop L s seq (as @ bs) = ping_loop L s (seq + int (length as)) bs"
  using assms(2)
proof (induction as arbitrary: seq)
  case (Cons a as)
  have a: "fruitless L s seq a" using Cons.prems [of 0] by simp
  have rest: "fruitless L s (seq + 1 + int k) (as ! k)" if "k < length as" for k
    using Cons.prems [of "Suc k"] that by (simp add: algebra_simps)
  obtain wire where "MarshalIcmp L (echo_request s seq) = Inr wire" using assms(1) by blast
  moreover have "ping_reads L s seq (at_sent a) (at_packets a (read_wait (at_remaining a))) = None"
    using a by (simp add: ping_reads_None fruitless_def)
  ultimately show ?case
    using a Cons.IH [OF rest] by (simp add: fruitless_def algebra_simps)
qed simp

lemma ping_loop_ctx:
  "\<exists>a \<in> set as. at_ctx a \<noteq> None \<Longrightarrow> ping_loop L s seq as \<noteq> None"
  by (induction L s seq as rule: ping_loop.induct) (auto split: option.splits sum.splits)

lemma icmpPing_cases:
  obtains (closed) err where "icmpPing L n p as = (Some (Inl err), n)"
  | (socket) raw where "icmpPing L n p as =
      (ping_loop L \<lparr>ps_raw = raw, ps_proto = snd (snd (ping_networks (To4 p \<noteq> nil_ip))),
         ps_req = fst (echo_types (To4 p \<noteq> nil_ip)), ps_reply = snd (echo_types (To4 p \<noteq> nil_ip)),
         ps_id = echo_ident (getpid L) (n + 1)\<rparr> 1 as, n + 1)"
    "raw \<longleftrightarrow> ListenPacket L (fst (ping_networks (To4 p \<noteq> nil_ip))) = None"
proof (cases "ListenPacket L (fst (ping_networks (To4 p \<noteq> nil_ip)))")
  case None
  then show ?thesis by (intro socket [of True]) (simp_all add: icmpPing_def Let_def case_prod_unfold)
next
  case first: (Some e)
  show ?thesis
  proof (cases "ListenPacket L (fst (snd (ping_networks (To4 p \<noteq> nil_ip))))")
    case None
    with first show ?thesis
      by (intro socket [of False]) (simp_all add: icmpPing_def Let_def case_prod_unfold)
  next
    case (Some err)
    with first show ?thesis by (intro closed [of err]) (simp add: icmpPing_def Let_def case_prod_unfold)
  qed
qed

section \<open>Properties\<close>

text \<open>
  C35: A measured ICMP round trip is genuine: it is the time between sending the echo with
  some sequence number and a packet, read in that same round, that parses as an IPv4-typed
  echo reply with that sequence number and, on a raw socket, with the identifier of this
  very probe.
\<close>

theorem icmpPing_sound:
  assumes "icmpPing L n p as = (Some (Inr rtt), n')"
  shows "\<exists>k < length as. \<exists>b t m i d.
    (b, t) \<in> set (at_packets (as ! k) (read_wait (at_remaining (as ! k)))) \<and>
    ParseMessage L (if To4 p \<noteq> nil_ip then 1 else 58) b = Inr m \<and>
    im_type m = V4Type (if To4 p \<noteq> nil_ip then 0 else 129) \<and>
    im_body m = Echo i (1 + int k) d \<and>
    (ListenPacket L (if To4 p \<noteq> nil_ip then ''ip4:icmp'' else ''ip6:ipv6-icmp'') = None \<longrightarrow>
       i = echo_ident (getpid L) (n + 1)) \<and>
    rtt = t - at_sent (as ! k)"
proof (rule icmpPing_cases [of L n p as])
  fix err
  assume "icmpPing L n p as = (Some (Inl err), n)"
  with assms show ?thesis by simp
next
  fix raw
  let ?s = "\<lparr>ps_raw = raw, ps_proto = snd (snd (ping_networks (To4 p \<noteq> nil_ip))),
      ps_req = fst (echo_types (To4 p \<noteq> nil_ip)), ps_reply = snd (echo_types (To4 p \<noteq> nil_ip)),
      ps_id = echo_ident (getpid L) (n + 1)\<rparr>"
  assume raw: "raw \<longleftrightarrow> ListenPacket L (fst (ping_networks (To4 p \<noteq> nil_ip))) = None"
  assume run: "icmpPing L n p as = (ping_loop L ?s 1 as, n + 1)"
  have "fst (icmpPing L n p as) = Some (Inr rtt)" using assms by simp
  then have "ping_loop L ?s 1 as = Some (Inr rtt)" unfolding run fst_conv .
  from ping_loop_success [OF this] obtain k b t where k: "k < length as"
    "(b, t) \<in> set (at_packets (as ! k) (read_wait (at_remaining (as ! k))))"
    "our_reply ?s (1 + int k) (ParseMessage L (ps_proto ?s) b)" "rtt = t - at_sent (as ! k)"
    by blast
  from k(3) obtain m i d where m: "ParseMessage L (ps_proto ?s) b = Inr m" "im_type m = ps_reply ?s"
    "im_body m = Echo i (1 + int k) d" "raw \<longrightarrow> i = echo_ident (getpid L) (n + 1)"
    by (auto simp: our_reply_def split: sum.splits if_splits icmp_body.splits)
  show ?thesis
    using k(1,2,4) m raw
    by (intro exI [of _ k] conjI exI [of _ b] exI [of _ t] exI [of _ m] exI [of _ i] exI [of _ d])
       (auto simp: ping_networks_def echo_types_def split: if_splits)
qed

text \<open>
  The probe of an IPv6 address never succeeds: replies parsed as ICMPv6 carry an
  \<open>ipv6.ICMPType\<close>, and the probe compares them with an \<open>ipv4.ICMPType\<close>.
\<close>

theorem icmpPing_ipv6_never_succeeds:
  assumes "parses_by_protocol L" and "To4 p = nil_ip"
  shows "fst (icmpPing L n p as) \<noteq> Some (Inr rtt)"
proof (rule icmpPing_cases [of L n p as])
  fix raw
  let ?s = "\<lparr>ps_raw = raw, ps_proto = snd (snd (ping_networks (To4 p \<noteq> nil_ip))),
      ps_req = fst (echo_types (To4 p \<noteq> nil_ip)), ps_reply = snd (echo_types (To4 p \<noteq> nil_ip)),
      ps_id = echo_ident (getpid L) (n + 1)\<rparr>"
  assume run: "icmpPing L n p as = (ping_loop L ?s 1 as, n + 1)"
  have "\<not> our_reply ?s sq (ParseMessage L (ps_proto ?s) b)" for sq b
  proof (cases "ParseMessage L 58 b")
    case (Inr m)
    with assms obtain v where "im_type m = V6Type v" unfolding parses_by_protocol_def by blast
    with Inr assms(2) show ?thesis by (simp add: our_reply_def ping_networks_def echo_types_def)
  qed (simp add: our_reply_def assms(2) ping_networks_def)
  then have "ping_loop L ?s 1 as \<noteq> Some (Inr rtt)" using ping_loop_success by blast
  with run show ?thesis by simp
qed simp

text \<open>
  A lost echo does not disqualify an IPv4 address: after any number of rounds without a
  reply, the first round whose first packet is the echo reply to its own sequence number
  ends the probe with that round's round-trip time.
\<close>

theorem icmpPing_retries:
  assumes "To4 p \<noteq> nil_ip" and "ListenPacket L ''ip4:icmp'' = None"
    and "s = \<lparr>ps_raw = True, ps_proto = 1, ps_req = V4Type 8, ps_reply = V4Type 0,
              ps_id = echo_ident (getpid L) (n + 1)\<rparr>"
    and "\<And>sq. \<exists>wire. MarshalIcmp L (echo_request s sq) = Inr wire"
    and "\<And>k. k < length lost \<Longrightarrow> fruitless L s (1 + int k) (lost ! k)"
    and "at_ctx a = None" and "at_write a = None"
    and "at_packets a (read_wait (at_remaining a)) = (b, t) # later"
    and "ParseMessage L 1 b =
      Inr \<lparr>im_type = V4Type 0, im_code = c, im_body = Echo (ps_id s) (1 + int (length lost)) d\<rparr>"
  shows "icmpPing L n p (lost @ a # rest) = (Some (Inr (t - at_sent a)), n + 1)"
proof -
  obtain wire where wire: "MarshalIcmp L (echo_request s (1 + int (length lost))) = Inr wire"
    using assms(4) by blast
  have "our_reply s (1 + int (length lost)) (ParseMessage L (ps_proto s) b)"
    using assms(3,9) by (simp add: our_reply_def)
  then have "ping_loop L s (1 + int (length lost)) (a # rest) = Some (Inr (t - at_sent a))"
    using assms(6-8) wire by simp
  then have "ping_loop L s 1 (lost @ a # rest) = Some (Inr (t - at_sent a))"
    using ping_loop_fruitless [OF assms(4,5)] by simp
  with assms(1-3) show ?thesis by (simp add: icmpPing_def ping_networks_def echo_types_def)
qed

text \<open>
  The probe ends with its context: if the context's error shows in any round, the probe
  has returned by then, whatever the sockets and the library do.
\<close>

theorem icmpPing_ends_with_context:
  assumes "\<exists>a \<in> set as. at_ctx a \<noteq> None"
  shows "fst (icmpPing L n p as) \<noteq> None"
  by (rule icmpPing_cases [of L n p as]) (use ping_loop_ctx [OF assms] in simp_all)

section \<open>Witnesses\<close>

text \<open>A library that decodes an eight-byte toy format: type, code, and the sequence number.\<close>

definition toy_icmp :: icmp_lib where
  "toy_icmp =
     \<lparr>ListenPacket = (\<lambda>net. None),
      MarshalIcmp = (\<lambda>m. Inr ''echo''),
      ParseMessage = (\<lambda>proto b.
        case b of
          [] \<Rightarrow> Inl ''message too short''
        | c # r \<Rightarrow>
            Inr \<lparr>im_type = (if proto = 58 then V6Type 129 else V4Type 0), im_code = 0,
                 im_body = Echo 43 (int (length r)) []\<rparr>),
      getpid = 42\<rparr>"

abbreviation round_at :: "timestamp \<Rightarrow> (bytes \<times> timestamp) list \<Rightarrow> attempt" where
  "round_at t ps \<equiv>
     \<lparr>at_ctx = None, at_sent = t, at_write = None, at_remaining = None, at_packets = (\<lambda>_. ps)\<rparr>"

lemma toy_icmp_run:
  "icmpPing toy_icmp 0 [192, 0, 2, 1] [round_at 0 [(''x'', 3)], round_at 150 [(''xyz'', 170)]] =
     (Some (Inr 20), 1)"
  by (simp add: icmpPing_def Let_def To4_def ping_networks_def echo_types_def toy_icmp_def
      echo_ident_def our_reply_def read_wait_def)

theorem icmpPing_sound_witness:
  "\<exists>k < length [round_at 0 [(''x'', 3)], round_at 150 [(''xyz'', 170)]]. \<exists>b t m i d.
    (b, t) \<in> set (at_packets ([round_at 0 [(''x'', 3)], round_at 150 [(''xyz'', 170)]] ! k)
      (read_wait (at_remaining ([round_at 0 [(''x'', 3)], round_at 150 [(''xyz'', 170)]] ! k)))) \<and>
    ParseMessage toy_icmp (if To4 [192, 0, 2, 1] \<noteq> nil_ip then 1 else 58) b = Inr m \<and>
    im_type m = V4Type (if To4 [192, 0, 2, 1] \<noteq> nil_ip then 0 else 129) \<and>
    im_body m = Echo i (1 + int k) d \<and>
    (ListenPacket toy_icmp (if To4 [192, 0, 2, 1] \<noteq> nil_ip then ''ip4:icmp'' else ''ip6:ipv6-icmp'') = None \<longrightarrow>
       i = echo_ident (getpid toy_icmp) (0 + 1)) \<and>
    20 = t - at_sent ([round_at 0 [(''x'', 3)], round_at 150 [(''xyz'', 170)]] ! k)"
  by (rule icmpPing_sound [OF toy_icmp_run])

theorem icmpPing_ipv6_never_succeeds_witness:
  "fst (icmpPing toy_icmp 0 (replicate 16 32) [round_at 0 [(''xy'', 3)]]) \<noteq> Some (Inr 3)"
proof (rule icmpPing_ipv6_never_succeeds)
  show "parses_by_protocol toy_icmp"
    by (auto simp: parses_by_protocol_def toy_icmp_def split: list.splits)
  show "To4 (replicate 16 32) = nil_ip" by code_simp
qed

theorem icmpPing_retries_witness:
  "icmpPing toy_icmp 0 [192, 0, 2, 1] ([round_at 0 [(''x'', 3)]] @ round_at 150 [(''xyz'', 170)] # []) =
     (Some (Inr (170 - at_sent (round_at 150 [(''xyz'', 170)]))), 0 + 1)"
  by (rule icmpPing_retries [OF _ _ refl, where b = "''xyz''" and c = 0 and d = "[]" and later = "[]"])
     (auto simp: toy_icmp_def To4_def echo_ident_def fruitless_def our_reply_def)

theorem icmpPing_ends_with_context_witness:
  "fst (icmpPing toy_icmp 0 [192, 0, 2, 1]
     [round_at 0 [], (round_at 150 [])\<lparr>at_ctx := Some ''context deadline exceeded''\<rparr>]) \<noteq> None"
  by (rule icmpPing_ends_with_context) simp

end
