(* ===== verification/Probe.thy ===== *)
theory Probe
  imports Resolver Icmp
begin

text \<open>
  The probes of a race: \<open>tcpDial\<close> of \<open>internal/resolver/race.go\<close>, the goroutines that \<open>pickWinner\<close>
  starts for every address and port, and the echo probe of theory \<open>Icmp\<close>.  The dialer of Go's
  \<open>net\<close> package is an argument: what it and the clock show for a dial.  \<open>probe_events\<close> are the
  event lists that these probes can produce, so that what theory \<open>Race\<close> shows for every
  event list becomes a statement about dials and echoes.
\<close>

section \<open>Dialling\<close>

record dialing =
  d_start :: timestamp
  d_err :: "string option"
  d_end :: timestamp

definition JoinHostPort :: "string \<Rightarrow> string \<Rightarrow> string" where
  "JoinHostPort host port =
     (if CHR '':'' \<in> set host then ''['' @ host @ '']:'' @ port else host @ '':'' @ port)"

text \<open>\<open>tcpDial\<close>: connect, measure, close.\<close>

definition tcpDial :: "(string \<Rightarrow> dialing) \<Rightarrow> string \<Rightarrow> string + duration" where
  "tcpDial dialer address =
     (let d = dialer address in
      case d_err d of Some err \<Rightarrow> Inl err | None \<Rightarrow> Inr (d_end d - d_start d))"

text \<open>
  The goroutine started for an address and a port, and the one started for an echo.  The dialer
  is told which goroutine asks, since the same address may be dialled by several.
\<close>

definition tcp_probe :: "(nat \<Rightarrow> string \<Rightarrow> dialing) \<Rightarrow> ip \<times> nat \<times> int \<Rightarrow> tcpResult" where
  "tcp_probe net launch =
     (let (p, idx, port) = launch;
          res = tcpDial (net idx) (JoinHostPort (ip_string p) (itoa port))
      in \<lparr>t_ip = p, t_portIdx = idx, t_port = port,
          t_rtt = (case res of Inl err \<Rightarrow> 0 | Inr rtt \<Rightarrow> rtt),
          t_ok = (case res of Inl err \<Rightarrow> False | Inr rtt \<Rightarrow> True)\<rparr>)"

definition icmp_probe :: "(ip \<Rightarrow> (string + duration) option) \<Rightarrow> ip \<Rightarrow> icmpResult option" where
  "icmp_probe png p =
     (case png p of
        None \<Rightarrow> None
      | Some (Inl err) \<Rightarrow> Some \<lparr>i_ip = p, i_rtt = 0, i_ok = False\<rparr>
      | Some (Inr rtt) \<Rightarrow> Some \<lparr>i_ip = p, i_rtt = rtt, i_ok = True\<rparr>)"

definition tcp_launches :: "(nat \<Rightarrow> string \<Rightarrow> dialing) \<Rightarrow> ip list \<Rightarrow> int list \<Rightarrow> tcpResult list" where
  "tcp_launches net ips ports = map (tcp_probe net) (launched_tcp ips ports)"

definition icmp_launches :: "(ip \<Rightarrow> (string + duration) option) \<Rightarrow> bool \<Rightarrow> ip list \<Rightarrow> icmpResult list" where
  "icmp_launches png ping ips = (if ping then List.map_filter (icmp_probe png) ips else [])"

text \<open>
  What a race over these probes can see: some of their reports in any order, each at most once,
  with at most one expiry of the TCP deadline among them.
\<close>

definition probe_events ::
  "(nat \<Rightarrow> string \<Rightarrow> dialing) \<Rightarrow> (ip \<Rightarrow> (string + duration) option) \<Rightarrow> ip list \<Rightarrow> int list \<Rightarrow> bool \<Rightarrow>
   race_event list \<Rightarrow> bool" where
  "probe_events net png ips ports ping evs \<longleftrightarrow>
     mset (tcp_reports evs) \<subseteq># mset (tcp_launches net ips ports) \<and>
     mset (icmp_reports evs) \<subseteq># mset (icmp_launches png ping ips) \<and>
     length (filter (\<lambda>e. e = DeadlineC) evs) \<le> 1"

text \<open>The echo probes of a race: each takes its own number from the counter and sees its own rounds.\<close>

definition echoes :: "icmp_lib \<Rightarrow> (ip \<Rightarrow> u32) \<Rightarrow> (ip \<Rightarrow> attempt list) \<Rightarrow> ip \<Rightarrow> (string + duration) option" where
  "echoes L seqs rounds p = fst (icmpPing L (seqs p) p (rounds p))"

section \<open>Lemmas\<close>

lemma tcp_probe_launch: "(t_ip r, t_portIdx r, t_port r) = l" if "r = tcp_probe net l"
  using that by (cases l) (simp add: tcp_probe_def Let_def)

lemma tcp_launches_keys: "map (\<lambda>r. (t_ip r, t_portIdx r, t_port r)) (tcp_launches net ips ports) = launched_tcp ips ports"
  by (simp add: tcp_launches_def comp_def tcp_probe_launch)

lemma icmp_launches_ips: "mset (map i_ip (icmp_launches png ping ips)) \<subseteq># (if ping then mset ips else {#})"
proof -
  have "mset (map i_ip (List.map_filter (icmp_probe png) qs)) \<subseteq># mset qs" for qs
  proof (induction qs)
    case (Cons p ps)
    show ?case
    proof (cases "icmp_probe png p")
      case None
      have "mset ps \<subseteq># mset (p # ps)" by simp
      with None Cons.IH show ?thesis by (auto simp: map_filter_simps intro: subset_mset.order_trans)
    next
      case (Some r)
      then have "i_ip r = p" by (auto simp: icmp_probe_def split: option.splits sum.splits)
      with Cons Some show ?thesis by (simp add: map_filter_simps)
    qed
  qed (simp add: map_filter_simps)
  then show ?thesis by (simp add: icmp_launches_def)
qed

lemma mset_map_mono: "mset xs \<subseteq># mset ys \<Longrightarrow> mset (map f xs) \<subseteq># mset (map f ys)"
  by (metis image_mset_subseteq_mono mset_map)

text \<open>Real probes report only what was launched.\<close>

lemma probe_events_possible: "probe_events net png ips ports ping evs \<Longrightarrow> possible_events ips ports ping evs"
  using mset_map_mono [of "tcp_reports evs" "tcp_launches net ips ports" "\<lambda>r. (t_ip r, t_portIdx r, t_port r)"]
    mset_map_mono [of "icmp_reports evs" "icmp_launches png ping ips" i_ip] icmp_launches_ips [of png ping ips]
  unfolding probe_events_def possible_events_def tcp_launches_keys by (auto intro: subset_mset.order_trans)

lemma probe_events_sources:
  assumes "probe_events net png ips ports ping evs"
  shows "TcpMsg r \<in> set evs \<Longrightarrow> r \<in> set (tcp_launches net ips ports)"
    and "IcmpMsg p \<in> set evs \<Longrightarrow> p \<in> set (icmp_launches png ping ips)"
  using assms set_mset_mono [of "mset (tcp_reports evs)"] set_mset_mono [of "mset (icmp_reports evs)"]
  unfolding probe_events_def by (fastforce simp: tcp_reports_mem icmp_reports_mem)+

lemma tcp_launch_ok:
  assumes "r \<in> set (tcp_launches net ips ports)" "t_ok r"
  obtains i where "i < length ports" "t_ip r \<in> set ips" "t_port r = ports ! i"
    "tcpDial (net i) (JoinHostPort (ip_string (t_ip r)) (itoa (ports ! i))) = Inr (t_rtt r)"
proof -
  from assms(1) obtain p i port where l: "(p, i, port) \<in> set (launched_tcp ips ports)" "r = tcp_probe net (p, i, port)"
    by (auto simp: tcp_launches_def)
  with assms(2) show thesis
    by (intro that [of i]) (auto simp: launched_tcp_mem tcp_probe_def Let_def split: sum.splits)
qed

lemma icmp_launch_ok:
  assumes "r \<in> set (icmp_launches png ping ips)" "i_ok r"
  shows "ping \<and> i_ip r \<in> set ips \<and> png (i_ip r) = Some (Inr (i_rtt r))"
  using assms
  by (auto simp: icmp_launches_def icmp_probe_def List.map_filter_def split: if_splits option.splits sum.splits)

lemma pickWinner_earned:
  assumes "pickWinner ips ports ping evs = Some (w, via, rtt)" "w \<noteq> nil_ip"
  obtains (tcp) r where "TcpMsg r \<in> set evs" "t_ok r" "w = t_ip r" "via = ''tcp/'' @ itoa (t_port r)" "rtt = t_rtt r"
  | (icmp) p where "IcmpMsg p \<in> set evs" "i_ok p" "w = i_ip p" "via = ''icmp''" "rtt = i_rtt p"
proof -
  from assms(1) have "earned (race_init (length ips) (length ports) ping) evs (w, via, rtt)"
    unfolding pickWinner_def by (rule race_loop_earned)
  with assms(2) that show thesis
    by (auto simp: earned_def race_init_def nobody_def tcpWin_def icmpWin_def)
qed

section \<open>Properties\<close>

text \<open>
  C6: A race winner can be reached.  Whatever order the probes report in, an address that
  \<open>pickWinner\<close> returns is a candidate to which a TCP connection on one of the configured ports
  was really established, the reported time being the time from before the dial to its
  completion, or which answered an ICMP echo, the time being the probe's measurement.
\<close>

theorem race_winner_was_probed:
  assumes "probe_events net png ips ports ping evs"
    and "pickWinner ips ports ping evs = Some (w, via, rtt)" and "w \<noteq> nil_ip"
  shows "w \<in> set ips \<and>
    ((\<exists>i < length ports. via = ''tcp/'' @ itoa (ports ! i) \<and>
        (let d = net i (JoinHostPort (ip_string w) (itoa (ports ! i))) in
         d_err d = None \<and> rtt = d_end d - d_start d)) \<or>
     (ping \<and> via = ''icmp'' \<and> png w = Some (Inr rtt)))"
  using assms(2,3)
proof (cases rule: pickWinner_earned)
  case (tcp r)
  from probe_events_sources(1) [OF assms(1) tcp(1)] tcp(2) show ?thesis
  proof (rule tcp_launch_ok)
    fix i
    assume "i < length ports" "t_ip r \<in> set ips" "t_port r = ports ! i"
      "tcpDial (net i) (JoinHostPort (ip_string (t_ip r)) (itoa (ports ! i))) = Inr (t_rtt r)"
    with tcp show ?thesis by (auto simp: tcpDial_def Let_def split: option.splits intro!: exI [of _ i])
  qed
next
  case (icmp p)
  with icmp_launch_ok [OF probe_events_sources(2) [OF assms(1) icmp(1)] icmp(2)] show ?thesis by simp
qed

text \<open>
  C17: ICMP never decides a race between IPv6 addresses: whatever arrives on the ICMP sockets,
  a winner of such a race won by TCP, and when no TCP connection can be established there is no
  winner at all, however many of the addresses answer echoes.
\<close>

theorem ipv6_race_never_icmp:
  assumes "parses_by_protocol L" and "\<forall>p \<in> set ips. To4 p = nil_ip"
    and "probe_events net (echoes L seqs rounds) ips ports ping evs"
    and "pickWinner ips ports ping evs = Some (w, via, rtt)"
  shows "via \<noteq> ''icmp'' \<and>
    ((\<forall>i < length ports. \<forall>p \<in> set ips. d_err (net i (JoinHostPort (ip_string p) (itoa (ports ! i)))) \<noteq> None) \<longrightarrow>
     w = nil_ip)"
proof -
  have no_echo: False if "IcmpMsg q \<in> set evs" "i_ok q" for q
    using icmp_launch_ok [OF probe_events_sources(2) [OF assms(3) that(1)] that(2)] assms(1,2)
      icmpPing_ipv6_never_succeeds by (auto simp: echoes_def)
  have "via \<noteq> ''icmp'' \<and> (\<exists>i < length ports. \<exists>p \<in> set ips. d_err (net i (JoinHostPort (ip_string p) (itoa (ports ! i)))) = None)"
    if "w \<noteq> nil_ip"
    using assms(4) that
  proof (cases rule: pickWinner_earned)
    case (tcp r)
    from probe_events_sources(1) [OF assms(3) tcp(1)] tcp(2) show ?thesis
      by (rule tcp_launch_ok) (use tcp in \<open>auto simp: tcpDial_def Let_def split: option.splits\<close>)
  next
    case (icmp p)
    with no_echo show ?thesis by blast
  qed
  moreover have "via \<noteq> ''icmp''" if "w = nil_ip"
  proof -
    from assms(4) have "earned (race_init (length ips) (length ports) ping) evs (w, via, rtt)"
      unfolding pickWinner_def by (rule race_loop_earned)
    with no_echo show ?thesis
      by (auto simp: earned_def race_init_def nobody_def tcpWin_def icmpWin_def)
  qed
  ultimately show ?thesis by blast
qed

section \<open>Witnesses\<close>

definition open_net :: "nat \<Rightarrow> string \<Rightarrow> dialing" where
  "open_net i address = \<lparr>d_start = 5, d_err = None, d_end = 20\<rparr>"

definition closed_net :: "nat \<Rightarrow> string \<Rightarrow> dialing" where
  "closed_net i address = \<lparr>d_start = 5, d_err = Some ''connection refused'', d_end = 6\<rparr>"

abbreviation v6_1 :: ip where "v6_1 \<equiv> replicate 16 32"
abbreviation v6_2 :: ip where "v6_2 \<equiv> replicate 16 33"

theorem race_winner_was_probed_witness:
  "ip2 \<in> set [ip1, ip2] \<and>
    ((\<exists>i < length [443, 80 :: int]. ''tcp/443'' = ''tcp/'' @ itoa ([443, 80] ! i) \<and>
        (let d = open_net i (JoinHostPort (ip_string ip2) (itoa ([443, 80] ! i))) in
         d_err d = None \<and> 15 = d_end d - d_start d)) \<or>
     (True \<and> ''tcp/443'' = ''icmp'' \<and> (\<lambda>_ :: ip. None :: (string + duration) option) ip2 = Some (Inr 15)))"
proof (rule race_winner_was_probed)
  have "tcp_probe open_net (ip2, 0, 443) = dialed ip2 0 15 True"
    by (simp add: tcp_probe_def tcpDial_def open_net_def Let_def)
  then show "probe_events open_net (\<lambda>_. None) [ip1, ip2] [443, 80] True [TcpMsg (dialed ip2 0 15 True)]"
    by (simp add: probe_events_def tcp_launches_def launched_tcp_def)
  have "itoa 443 = ''443''" by code_simp
  then show "pickWinner [ip1, ip2] [443, 80] True [TcpMsg (dialed ip2 0 15 True)] = Some (ip2, ''tcp/443'', 15)"
    by (simp add: pickWinner_def race_init_def race_check_def tcpWin_def)
qed simp

text \<open>Two IPv6 addresses that refuse every connection and whose echo replies arrive.\<close>

theorem ipv6_race_never_icmp_witness:
  "\<exists>w via rtt. pickWinner [v6_1, v6_2] [443] True
      [TcpMsg (tcp_probe closed_net (v6_1, 0, 443)), TcpMsg (tcp_probe closed_net (v6_2, 0, 443)), CtxDone] =
        Some (w, via, rtt) \<and> via \<noteq> ''icmp'' \<and> w = nil_ip"
proof -
  let ?png = "echoes toy_icmp (\<lambda>_. 0) (\<lambda>_. [round_at 0 [(''xy'', 3)]])"
  let ?evs = "[TcpMsg (tcp_probe closed_net (v6_1, 0, 443)), TcpMsg (tcp_probe closed_net (v6_2, 0, 443)), CtxDone]"
  have L: "parses_by_protocol toy_icmp"
    by (auto simp: parses_by_protocol_def toy_icmp_def split: list.splits)
  have "To4 v6_1 = nil_ip" "To4 v6_2 = nil_ip" by code_simp+
  then have v6: "\<forall>p \<in> set [v6_1, v6_2]. To4 p = nil_ip" by simp
  have evs: "probe_events closed_net ?png [v6_1, v6_2] [443] True ?evs"
    by (simp add: probe_events_def tcp_launches_def launched_tcp_def del: replicate.simps)
  obtain w via rtt where run: "pickWinner [v6_1, v6_2] [443] True ?evs = Some (w, via, rtt)"
    by (simp add: pickWinner_def race_init_def race_check_def tcp_probe_def tcpDial_def closed_net_def nobody_def Let_def)
  have "d_err (closed_net i a) \<noteq> None" for i a by (simp add: closed_net_def)
  with ipv6_race_never_icmp [OF L v6 evs run] run show ?thesis by blast
qed

end
