(* ===== verification/ResolveTime.thy ===== *)
theory ResolveTime
  imports Waiters
begin

text \<open>
  How long a call of \<open>resolve\<close> (\<open>internal/client/client.go\<close>) can take.  Its two \<open>select\<close>
  statements, modelled by \<open>select_step\<close> in theory \<open>Waiters\<close>, are placed in time: each pass through
  a \<open>select\<close> arms a timer of its own, and the event that is ready first is picked (any of
  them when several are ready together).  Times are measured from the start of the call, whose context
  is \<open>context.Background\<close> and never ends.
\<close>

record arrivals =
  ar_resp :: "(duration \<times> response) option"
  ar_xadd :: "(duration \<times> string option) option"

text \<open>The cases of the \<open>select\<close> entered at time \<open>s\<close>, each with the time at which it becomes ready.\<close>

definition ready :: "duration \<Rightarrow> arrivals \<Rightarrow> phase \<Rightarrow> duration \<Rightarrow> (sel_event \<times> duration) list" where
  "ready block a ph s =
     (case ar_resp a of None \<Rightarrow> [] | Some (t, r) \<Rightarrow> [(GotResp r, max s t)]) @
     (case (ph, ar_xadd a) of (Unconfirmed, Some (t, e)) \<Rightarrow> [(XaddAck e, max s t)] | _ \<Rightarrow> []) @
     [(TimerFires, s + block)]"

definition picks :: "duration \<Rightarrow> arrivals \<Rightarrow> phase \<Rightarrow> duration \<Rightarrow> sel_event \<Rightarrow> duration \<Rightarrow> bool" where
  "picks block a ph s ev t \<longleftrightarrow>
     (ev, t) \<in> set (ready block a ph s) \<and> list_all (\<lambda>(ev', t'). t \<le> t') (ready block a ph s)"

inductive timed_resolve ::
  "duration \<Rightarrow> arrivals \<Rightarrow> phase \<Rightarrow> duration \<Rightarrow> string + response \<Rightarrow> duration \<Rightarrow> bool"
  for block :: duration and a :: arrivals where
  return: "picks block a ph s ev t \<Longrightarrow> select_step ph ev = Inl res \<Longrightarrow> timed_resolve block a ph s res t"
| go_on: "picks block a ph s ev t \<Longrightarrow> select_step ph ev = Inr ph' \<Longrightarrow> timed_resolve block a ph' t res t' \<Longrightarrow>
     timed_resolve block a ph s res t'"

inductive_cases timed_resolveE: "timed_resolve block a ph s res t"

lemma picks_exists: "\<exists>ev t. picks block a ph s ev t"
proof -
  let ?L = "ready block a ph s"
  have "?L \<noteq> []" by (simp add: ready_def)
  then obtain x where "x \<in> set ?L" "\<forall>y \<in> set ?L. snd x \<le> snd y"
    using Min_in [of "snd ` set ?L"] Min_le [of "snd ` set ?L"] by fastforce
  then show ?thesis by (intro exI [of _ "fst x"] exI [of _ "snd x"]) (auto simp: picks_def list_all_iff)
qed

lemma picks_time: "picks block a ph s ev t \<Longrightarrow> t \<le> s + block"
  by (auto simp: picks_def ready_def list_all_iff)

lemma picks_later: "0 \<le> block \<Longrightarrow> picks block a ph s ev t \<Longrightarrow> s \<le> t"
  by (auto simp: picks_def ready_def split: option.splits phase.splits prod.splits)

lemma confirmed_decides: "picks block a Confirmed s ev t \<Longrightarrow> \<exists>res. select_step Confirmed ev = Inl res"
  by (auto simp: picks_def ready_def split: option.splits prod.splits)

lemma unconfirmed_next: "select_step Unconfirmed ev = Inr ph \<Longrightarrow> ph = Confirmed \<and> ev = XaddAck None"
  by (cases "(Unconfirmed, ev)" rule: select_step.cases) auto

lemma confirmed_time:
  assumes "timed_resolve block a Confirmed s res t"
  shows "t \<le> s + block"
  using assms by (rule timed_resolveE) (auto dest: picks_time confirmed_decides)

lemma timed_resolve_confirmed: "\<exists>res t. timed_resolve block a Confirmed s res t"
  using picks_exists [of block a Confirmed s] confirmed_decides timed_resolve.return by metis

lemma timed_resolve_exists: "\<exists>res t. timed_resolve block a ph s res t"
proof -
  obtain ev t where p: "picks block a ph s ev t" using picks_exists by blast
  show ?thesis
  proof (cases "select_step ph ev")
    case (Inl res)
    with p show ?thesis using timed_resolve.return by metis
  next
    case (Inr ph')
    then have "ph' = Confirmed" by (cases ph; cases ev rule: sel_event.exhaust) (auto dest: unconfirmed_next split: option.splits)
    with Inr p timed_resolve_confirmed [of block a t] show ?thesis using timed_resolve.go_on by metis
  qed
qed

text \<open>Placing the events in time only selects among the runs of the untimed model.\<close>

lemma timed_is_untimed: "timed_resolve block a ph s res t \<Longrightarrow> \<exists>evs. resolve_wait ph evs = Some res"
proof (induction rule: timed_resolve.induct)
  case (return ph s ev t res)
  then show ?case by (intro exI [of _ "[ev]"]) simp
next
  case (go_on ph s ev t ph' res t')
  then obtain evs where "resolve_wait ph' evs = Some res" by blast
  with go_on show ?case by (intro exI [of _ "ev # evs"]) simp
qed

lemma picks_resp:
  assumes "ar_resp a = Some (tr, r)" "s \<le> tr" "tr < s + block" "picks block a ph s ev t"
  shows "ev = GotResp r \<and> t = tr \<or> ph = Unconfirmed \<and> t \<le> tr \<and> (\<exists>tx e. ar_xadd a = Some (tx, e) \<and> ev = XaddAck e \<and> t = max s tx)"
  using assms by (cases ph) (auto simp: picks_def ready_def split: option.splits)

lemma confirmed_resp:
  assumes "ar_resp a = Some (tr, r)" "s \<le> tr" "tr < s + block" "timed_resolve block a Confirmed s res t"
  shows "res = check_resp r \<and> t = tr"
  using assms(4)
proof (rule timed_resolveE)
  fix ev
  assume "picks block a Confirmed s ev t" "select_step Confirmed ev = Inl res"
  with picks_resp [OF assms(1-3)] show ?thesis by fastforce
next
  fix ev t' ph'
  assume "picks block a Confirmed s ev t'" "select_step Confirmed ev = Inr ph'"
  with confirmed_decides show ?thesis by fastforce
qed

lemma timed_resolve_later: "timed_resolve block a ph s res t \<Longrightarrow> 0 \<le> block \<Longrightarrow> s \<le> t"
  by (induction rule: timed_resolve.induct) (auto dest: picks_later)

section \<open>Properties\<close>

text \<open>
  C32: A query never hangs: whatever happens to its request and its response, a call of
  \<open>resolve\<close> returns, at the latest after twice the blocking time; and a response that arrives
  within the blocking time is the result, unless appending the request to the stream has
  failed by then.
\<close>

theorem resolve_returns_in_time:
  assumes "0 < block"
  shows "(\<exists>res t. timed_resolve block a Unconfirmed 0 res t) \<and>
    (\<forall>res t. timed_resolve block a Unconfirmed 0 res t \<longrightarrow> 0 \<le> t \<and> t \<le> 2 * block) \<and>
    (\<forall>res t tr r. ar_resp a = Some (tr, r) \<longrightarrow> 0 \<le> tr \<longrightarrow> tr < block \<longrightarrow>
       (\<forall>tx e. ar_xadd a = Some (tx, Some e) \<longrightarrow> tr < tx) \<longrightarrow>
       timed_resolve block a Unconfirmed 0 res t \<longrightarrow> res = check_resp r \<and> t = tr)"
proof (intro conjI allI impI)
  show "\<exists>res t. timed_resolve block a Unconfirmed 0 res t" by (rule timed_resolve_exists)
next
  fix res t
  assume run: "timed_resolve block a Unconfirmed 0 res t"
  then show "t \<le> 2 * block"
    by (rule timed_resolveE) (use assms in \<open>auto dest!: picks_time unconfirmed_next dest: confirmed_time\<close>)
  show "0 \<le> t" using timed_resolve_later [OF run] assms by simp
next
  fix res t tr r
  assume r: "ar_resp a = Some (tr, r)" "0 \<le> tr" "tr < block" "\<forall>tx e. ar_xadd a = Some (tx, Some e) \<longrightarrow> tr < tx"
    and run: "timed_resolve block a Unconfirmed 0 res t"
  from run have "res = check_resp r \<and> t = tr"
  proof (rule timed_resolveE)
    fix ev
    assume p: "picks block a Unconfirmed 0 ev t" "select_step Unconfirmed ev = Inl res"
    have "ev = GotResp r \<and> t = tr"
    proof (rule ccontr)
      assume "\<not> (ev = GotResp r \<and> t = tr)"
      then obtain tx e where x: "ar_xadd a = Some (tx, e)" "ev = XaddAck e" "t = max 0 tx" "t \<le> tr"
        using picks_resp [OF r(1,2) _ p(1)] r(3) by auto
      with p(2) obtain err where "e = Some err" by (cases e) auto
      with r(4) x show False by auto
    qed
    with p(2) show ?thesis by simp
  next
    fix ev t' ph'
    assume p: "picks block a Unconfirmed 0 ev t'" "select_step Unconfirmed ev = Inr ph'"
      and rest: "timed_resolve block a ph' t' res t"
    have c: "ph' = Confirmed" "ev = XaddAck None" using unconfirmed_next [OF p(2)] by auto
    have "t' \<le> tr" using picks_resp [OF r(1,2) _ p(1)] r(3) c(2) by auto
    moreover have "0 \<le> t'" using picks_later [OF _ p(1)] assms by simp
    ultimately show ?thesis using confirmed_resp [OF r(1) _ _ rest [unfolded c(1)]] r(3) by simp
  qed
  then show "res = check_resp r" "t = tr" by simp_all
qed

text \<open>
  C33: The blocking time does not bound the wait: the second \<open>select\<close> arms a fresh timer, so a
  call whose request was confirmed at time \<open>tx\<close> and never answered returns only at
  \<open>tx + block\<close>, after up to twice the configured time.
\<close>

theorem resolve_confirmed_waits_again:
  assumes "ar_resp a = None" and "ar_xadd a = Some (tx, None)" and "0 \<le> tx" and "tx < block"
    and "timed_resolve block a Unconfirmed 0 res t"
  shows "res = Inl ''resolution timed out'' \<and> t = tx + block"
proof -
  have U: "picks block a Unconfirmed 0 ev u \<Longrightarrow> ev = XaddAck None \<and> u = tx" for ev u
    using assms(1-4) by (auto simp: picks_def ready_def)
  have C: "picks block a Confirmed tx ev u \<Longrightarrow> ev = TimerFires \<and> u = tx + block" for ev u
    using assms(1) by (auto simp: picks_def ready_def)
  from assms(5) have "timed_resolve block a Confirmed tx res t"
    by (rule timed_resolveE) (auto dest!: U)
  then show ?thesis by (rule timed_resolveE) (auto dest!: C)
qed

section \<open>Witnesses\<close>

definition slow_answer :: arrivals where
  "slow_answer = \<lparr>ar_resp = Some (3 * second, zero_response\<lparr>rsp_id := ''7f'', rsp_wire := ''wire''\<rparr>),
     ar_xadd = Some (second, None)\<rparr>"

theorem resolve_returns_in_time_witness:
  "\<exists>t. timed_resolve (5 * second) slow_answer Unconfirmed 0
     (Inr (zero_response\<lparr>rsp_id := ''7f'', rsp_wire := ''wire''\<rparr>)) t \<and> t = 3 * second"
proof -
  have "0 < 5 * second" by (simp add: second_def)
  note R = resolve_returns_in_time [OF this, of slow_answer]
  then obtain res t where run: "timed_resolve (5 * second) slow_answer Unconfirmed 0 res t" by blast
  with R have "res = check_resp (zero_response\<lparr>rsp_id := ''7f'', rsp_wire := ''wire''\<rparr>) \<and> t = 3 * second"
    by (simp add: slow_answer_def second_def)
  with run show ?thesis by (auto simp: check_resp_def zero_response_def)
qed

theorem resolve_confirmed_waits_again_witness:
  "\<exists>t. timed_resolve (5 * second) (slow_answer\<lparr>ar_resp := None, ar_xadd := Some (4 * second, None)\<rparr>) Unconfirmed 0
     (Inl ''resolution timed out'') t \<and> t = 9 * second"
proof -
  obtain res t where run: "timed_resolve (5 * second) (slow_answer\<lparr>ar_resp := None, ar_xadd := Some (4 * second, None)\<rparr>)
      Unconfirmed 0 res t"
    using timed_resolve_exists by blast
  from resolve_confirmed_waits_again [OF _ _ _ _ run, of "4 * second"] run show ?thesis by (simp add: second_def)
qed

end
