(* ===== verification/Config.thy ===== *)
theory Config
  imports Prelude
begin

text \<open>
  \<open>internal/config/config.go\<close>: the configuration records, the defaulting accessors,
  the defaults, environment overrides and \<open>finalize\<close>.  Reading the file, the process
  environment and the YAML decoder (a third-party package) are arguments of \<open>Load\<close>.
\<close>

record redis_cfg =
  Addr :: string
  Username :: string
  Password :: string
  DB :: int
  PoolSize :: int
  TLS :: bool
  ServerName :: string

record upstream_cfg =
  UpAddr :: string
  Network :: string
  Timeout :: int

record follow_backend =
  FbAddr :: string
  SNI :: string

record follow_cfg =
  API :: string
  Token :: string
  FGroup :: string
  FInterval :: int
  Backends :: "(string \<times> follow_backend) list"

record prefetch_cfg =
  Interval :: int
  TopN :: int
  DecayHours :: int

record race_cfg =
  Enabled :: "bool option"
  Ports :: "int list"
  TimeoutMs :: int
  TCPDeadline :: int
  ICMP :: "bool option"
  PrefTTL :: int
  PrefNegTTL :: int
  RecheckHits :: int
  RecheckAge :: int

record config =
  Redis :: redis_cfg
  Upstream :: upstream_cfg
  Listen :: string
  DOHListen :: string
  LocalTTL :: int
  BlockTime :: int
  Group :: string
  Consumer :: string
  CacheTTL :: int
  NegTTL :: int
  RespMax :: int
  Workers :: int
  Prefetch :: prefetch_cfg
  Race :: race_cfg
  Follow :: follow_cfg

section \<open>Accessors\<close>

definition TopNN :: "prefetch_cfg \<Rightarrow> int" where
  "TopNN p = (if TopN p > 0 then TopN p else 50)"

definition DecayDur :: "prefetch_cfg \<Rightarrow> duration" where
  "DecayDur p = (if DecayHours p > 0 then dur_mul (DecayHours p) hour else 24 * hour)"

definition IsEnabled :: "race_cfg \<Rightarrow> bool" where
  "IsEnabled r = (case Enabled r of None \<Rightarrow> True | Some b \<Rightarrow> b)"

definition PortList :: "race_cfg \<Rightarrow> int list" where
  "PortList r = (if length (Ports r) > 0 then Ports r else [443, 80])"

definition TimeoutDur :: "race_cfg \<Rightarrow> duration" where
  "TimeoutDur r = (if TimeoutMs r > 0 then dur_mul (TimeoutMs r) millisecond else second)"

definition TCPDeadlineDur :: "race_cfg \<Rightarrow> duration" where
  "TCPDeadlineDur r =
     (if TCPDeadline r > 0 then dur_mul (TCPDeadline r) millisecond else 200 * millisecond)"

definition ICMPEnabled :: "race_cfg \<Rightarrow> bool" where
  "ICMPEnabled r = (case ICMP r of None \<Rightarrow> True | Some b \<Rightarrow> b)"

definition PrefTTLDur :: "race_cfg \<Rightarrow> duration" where
  "PrefTTLDur r = (if PrefTTL r > 0 then dur_mul (PrefTTL r) second else 24 * hour)"

definition PrefNegTTLDur :: "race_cfg \<Rightarrow> duration" where
  "PrefNegTTLDur r = (if PrefNegTTL r > 0 then dur_mul (PrefNegTTL r) second else 10 * minute)"

definition RecheckHitsN :: "race_cfg \<Rightarrow> int" where
  "RecheckHitsN r = (if RecheckHits r > 0 then RecheckHits r else 100)"

definition RecheckAgeDur :: "race_cfg \<Rightarrow> duration" where
  "RecheckAgeDur r = (if RecheckAge r > 0 then dur_mul (RecheckAge r) second else 6 * hour)"

section \<open>Defaults and loading\<close>

definition Default :: config where
  "Default =
     \<lparr>Redis = \<lparr>Addr = ''127.0.0.1:6379'', Username = [], Password = [], DB = 0, PoolSize = 0,
               TLS = False, ServerName = []\<rparr>,
      Upstream = \<lparr>UpAddr = ''8.8.8.8:53'', Network = ''udp'', Timeout = 5\<rparr>,
      Listen = ''0.0.0.0:53'', DOHListen = ''127.0.0.1:5354'', LocalTTL = 300, BlockTime = 5,
      Group = ''dns'', Consumer = ''resolver'', CacheTTL = 300, NegTTL = 60, RespMax = 1000,
      Workers = 0,
      Prefetch = \<lparr>Interval = 0, TopN = 0, DecayHours = 0\<rparr>,
      Race = \<lparr>Enabled = None, Ports = [], TimeoutMs = 0, TCPDeadline = 0, ICMP = None,
              PrefTTL = 0, PrefNegTTL = 0, RecheckHits = 0, RecheckAge = 0\<rparr>,
      Follow = \<lparr>API = [], Token = [], FGroup = [], FInterval = 0, Backends = []\<rparr>\<rparr>"

text \<open>\<open>os.Getenv\<close> returns the empty string for an unset variable.\<close>

definition applyEnv :: "(string \<Rightarrow> string) \<Rightarrow> config \<Rightarrow> config" where
  "applyEnv getenv cfg =
     (let cfg = (if getenv ''REDIS_ADDR'' \<noteq> []
                 then cfg\<lparr>Redis := (Redis cfg)\<lparr>Addr := getenv ''REDIS_ADDR''\<rparr>\<rparr> else cfg);
          cfg = (if getenv ''REDIS_PASSWORD'' \<noteq> []
                 then cfg\<lparr>Redis := (Redis cfg)\<lparr>Password := getenv ''REDIS_PASSWORD''\<rparr>\<rparr> else cfg);
          cfg = (if getenv ''UPSTREAM_ADDR'' \<noteq> []
                 then cfg\<lparr>Upstream := (Upstream cfg)\<lparr>UpAddr := getenv ''UPSTREAM_ADDR''\<rparr>\<rparr> else cfg);
          cfg = (if getenv ''LISTEN'' \<noteq> [] then cfg\<lparr>Listen := getenv ''LISTEN''\<rparr> else cfg)
      in cfg)"

definition finalize :: "config \<Rightarrow> config" where
  "finalize cfg =
     (let cfg = (if LocalTTL cfg \<le> 0 then cfg\<lparr>LocalTTL := 300\<rparr> else cfg);
          cfg = (if BlockTime cfg \<le> 0 then cfg\<lparr>BlockTime := 5\<rparr> else cfg);
          cfg = (if NegTTL cfg < 0 then cfg\<lparr>NegTTL := 0\<rparr> else cfg);
          cfg = (if RespMax cfg \<le> 0 then cfg\<lparr>RespMax := 1000\<rparr> else cfg);
          cfg = (if Timeout (Upstream cfg) \<le> 0
                 then cfg\<lparr>Upstream := (Upstream cfg)\<lparr>Timeout := 5\<rparr>\<rparr> else cfg);
          cfg = (if Network (Upstream cfg) = []
                 then cfg\<lparr>Upstream := (Upstream cfg)\<lparr>Network := ''udp''\<rparr>\<rparr> else cfg);
          cfg = (if Group cfg = [] then cfg\<lparr>Group := ''dns''\<rparr> else cfg);
          cfg = (if Consumer cfg = [] then cfg\<lparr>Consumer := ''resolver''\<rparr> else cfg)
      in cfg)"

definition Load ::
  "(string \<Rightarrow> string + bytes) \<Rightarrow> (bytes \<Rightarrow> config \<Rightarrow> string + config) \<Rightarrow> (string \<Rightarrow> string) \<Rightarrow>
   string \<Rightarrow> string + config" where
  "Load read_file yaml_unmarshal getenv path =
     (let cfg = Default in
      if path \<noteq> [] then
        (case read_file path of
           Inl e \<Rightarrow> Inl (''read config: '' @ e)
         | Inr b \<Rightarrow>
             (case yaml_unmarshal b cfg of
                Inl e \<Rightarrow> Inl (''parse config: '' @ e)
              | Inr cfg \<Rightarrow> Inr (finalize (applyEnv getenv cfg))))
      else Inr (finalize (applyEnv getenv cfg)))"

text \<open>What the binaries rely on after loading.\<close>

definition config_ok :: "config \<Rightarrow> bool" where
  "config_ok cfg \<longleftrightarrow>
     LocalTTL cfg > 0 \<and> BlockTime cfg > 0 \<and> NegTTL cfg \<ge> 0 \<and> RespMax cfg > 0 \<and>
     Timeout (Upstream cfg) > 0 \<and> Network (Upstream cfg) \<noteq> [] \<and> Group cfg \<noteq> [] \<and>
     Consumer cfg \<noteq> []"

section \<open>Lemmas\<close>

lemma finalize_ok: "config_ok (finalize cfg)"
  by (simp add: config_ok_def finalize_def Let_def)

lemma finalize_id: "config_ok cfg \<Longrightarrow> finalize cfg = cfg"
  by (simp add: config_ok_def finalize_def)

lemma finalize_keeps_env [simp]:
  "Redis (finalize cfg) = Redis cfg" "Listen (finalize cfg) = Listen cfg"
  "UpAddr (Upstream (finalize cfg)) = UpAddr (Upstream cfg)"
  by (simp_all add: finalize_def Let_def)

lemma applyEnv_values:
  "Addr (Redis (applyEnv g cfg)) = (if g ''REDIS_ADDR'' = [] then Addr (Redis cfg) else g ''REDIS_ADDR'')"
  "Password (Redis (applyEnv g cfg)) =
     (if g ''REDIS_PASSWORD'' = [] then Password (Redis cfg) else g ''REDIS_PASSWORD'')"
  "UpAddr (Upstream (applyEnv g cfg)) =
     (if g ''UPSTREAM_ADDR'' = [] then UpAddr (Upstream cfg) else g ''UPSTREAM_ADDR'')"
  "Listen (applyEnv g cfg) = (if g ''LISTEN'' = [] then Listen cfg else g ''LISTEN'')"
  by (simp_all add: applyEnv_def Let_def)

lemma Load_Inr:
  assumes "Load rf yu g path = Inr cfg"
  obtains c0 where "cfg = finalize (applyEnv g c0)"
    and "path = [] \<Longrightarrow> c0 = Default"
    and "path \<noteq> [] \<Longrightarrow> \<exists>b. rf path = Inr b \<and> yu b Default = Inr c0"
  using assms by (auto simp: Load_def split: if_splits sum.splits)

text \<open>
  Whatever the YAML file holds, a configuration that \<open>Load\<close> returns satisfies every
  condition \<open>finalize\<close> is there to establish, and every environment variable that is set
  wins over the file and over the defaults.
\<close>

theorem Load_establishes_config_ok:
  assumes "Load rf yu g path = Inr cfg"
  shows "config_ok cfg \<and>
    (g ''REDIS_ADDR'' \<noteq> [] \<longrightarrow> Addr (Redis cfg) = g ''REDIS_ADDR'') \<and>
    (g ''REDIS_PASSWORD'' \<noteq> [] \<longrightarrow> Password (Redis cfg) = g ''REDIS_PASSWORD'') \<and>
    (g ''UPSTREAM_ADDR'' \<noteq> [] \<longrightarrow> UpAddr (Upstream cfg) = g ''UPSTREAM_ADDR'') \<and>
    (g ''LISTEN'' \<noteq> [] \<longrightarrow> Listen cfg = g ''LISTEN'')"
  using assms by (auto elim!: Load_Inr simp: finalize_ok applyEnv_values)

text \<open>
  With no configuration file and an empty environment, \<open>Load\<close> cannot fail and gives
  exactly the defaults: \<open>finalize\<close> finds nothing to repair in them.
\<close>

theorem Load_default:
  assumes "\<And>v. getenv v = []"
  shows "Load read_file yaml_unmarshal getenv [] = Inr Default"
proof -
  have "config_ok Default" by (simp add: config_ok_def Default_def)
  with assms show ?thesis by (simp add: Load_def applyEnv_def finalize_id)
qed

text \<open>
  The race settings the accessors report are always usable: at least one port and
  positive budget, deadline, lifetimes and recheck limits, whatever the file says, as long
  as the numbers of the file do not overflow \<open>time.Duration\<close>.
\<close>

theorem race_settings_usable:
  assumes "TimeoutMs r < 2 ^ 43" "TCPDeadline r < 2 ^ 43" "PrefTTL r < 2 ^ 33"
    "PrefNegTTL r < 2 ^ 33" "RecheckAge r < 2 ^ 33"
  shows "PortList r \<noteq> [] \<and> TimeoutDur r > 0 \<and> TCPDeadlineDur r > 0 \<and> PrefTTLDur r > 0 \<and>
    PrefNegTTLDur r > 0 \<and> RecheckHitsN r > 0 \<and> RecheckAgeDur r > 0"
proof -
  have pos: "dur_mul x u > 0" if "0 < x" "x * u < 2 ^ 63" "0 < u" for x u
  proof -
    have "0 < x * u" using that by simp
    with that(2) have "in_int64 (x * u)" by (simp add: in_int64_def)
    with \<open>0 < x * u\<close> show ?thesis by (simp add: dur_mul_def wrap64_id)
  qed
  show ?thesis
    using assms
    by (auto simp: PortList_def TimeoutDur_def TCPDeadlineDur_def PrefTTLDur_def PrefNegTTLDur_def
        RecheckHitsN_def RecheckAgeDur_def duration_units intro!: pos)
qed

section \<open>Witnesses\<close>

theorem Load_establishes_config_ok_witness:
  "let g = (\<lambda>v. if v = ''LISTEN'' then ''127.0.0.1:53'' else []) in
   \<exists>cfg. Load (\<lambda>f. Inr ''local_ttl: -5'') (\<lambda>b c. Inr (c\<lparr>LocalTTL := -5\<rparr>)) g ''c.yml'' = Inr cfg \<and>
     config_ok cfg \<and> Listen cfg = ''127.0.0.1:53''"
proof -
  let ?g = "\<lambda>v. if v = ''LISTEN'' then ''127.0.0.1:53'' else []"
  obtain cfg where "Load (\<lambda>f. Inr ''local_ttl: -5'') (\<lambda>b c. Inr (c\<lparr>LocalTTL := -5\<rparr>)) ?g ''c.yml'' = Inr cfg"
    by (simp add: Load_def)
  moreover from Load_establishes_config_ok [OF this] have "config_ok cfg" "Listen cfg = ''127.0.0.1:53''"
    by simp_all
  ultimately show ?thesis by simp
qed

theorem Load_default_witness: "Load (\<lambda>f. Inl ''no file'') (\<lambda>b c. Inr c) (\<lambda>v. []) [] = Inr Default"
  by (rule Load_default) simp

theorem race_settings_usable_witness:
  "let r = (Race Default)\<lparr>TimeoutMs := 900\<rparr> in
   PortList r \<noteq> [] \<and> TimeoutDur r > 0 \<and> TCPDeadlineDur r > 0 \<and> PrefTTLDur r > 0 \<and>
    PrefNegTTLDur r > 0 \<and> RecheckHitsN r > 0 \<and> RecheckAgeDur r > 0"
  unfolding Let_def by (rule race_settings_usable) (simp_all add: Default_def)

end
