(* ===== verification/Follow.thy ===== *)
theory Follow
  imports Client Config
begin

text \<open>
  \<open>internal/client/follow.go\<close>: following the proxy node in use.  The controller is reached by
  HTTP: what \<open>http.NewRequest\<close> and \<open>http.Client.Do\<close> make of a URL and an authorization header
  is the argument \<open>http\<close> of a round.
\<close>

section \<open>Asking the controller\<close>

text \<open>\<open>url.PathEscape\<close>: what may stand in a path segment stays, every other byte becomes \<open>%XX\<close>.\<close>

definition path_char :: "char \<Rightarrow> bool" where
  "path_char c \<longleftrightarrow>
     (let b = ord c in 48 \<le> b \<and> b \<le> 57 \<or> 65 \<le> b \<and> b \<le> 90 \<or> 97 \<le> b \<and> b \<le> 122) \<or> c \<in> set ''-_.~$&+=:@''"

definition upper_hex :: "nat \<Rightarrow> char" where
  "upper_hex d = ''0123456789ABCDEF'' ! d"

definition PathEscape :: "string \<Rightarrow> string" where
  "PathEscape s =
     concat (map (\<lambda>c. if path_char c then [c] else [CHR ''%'', upper_hex (ord c div 16), upper_hex (ord c mod 16)]) s)"

text \<open>
  A URL that does not parse gives no request, and setting a header on the nil request panics; an
  error of \<open>Do\<close> gives the empty string, and so does a body that is not a JSON object.  Errors of
  \<open>Decode\<close> are ignored: the field keeps what was stored last.
\<close>

datatype http_outcome = NoRequest | DoError string | DoBody json_text

fun set_now :: "string \<Rightarrow> string \<times> json \<Rightarrow> string" where
  "set_now old (k, JStr v) = (if to_lower k = ''now'' then v else old)"
| "set_now old (k, _) = old"

fun decode_now :: "json_text \<Rightarrow> string" where
  "decode_now (Json (JObj kvs)) = foldl set_now [] kvs"
| "decode_now _ = []"

text \<open>The closure \<open>now\<close>; \<open>None\<close> is the panic.\<close>

definition follow_now :: "follow_cfg \<Rightarrow> (string \<Rightarrow> string \<Rightarrow> http_outcome) \<Rightarrow> string \<Rightarrow> string option" where
  "follow_now cfg http grp =
     (case http (API cfg @ ''/proxies/'' @ PathEscape grp) (''Bearer '' @ Token cfg) of
        NoRequest \<Rightarrow> None
      | DoError err \<Rightarrow> Some []
      | DoBody body \<Rightarrow> Some (decode_now body))"

section \<open>Rounds\<close>

record follow_state =
  f_current :: string
  f_client :: Client
  f_closed :: "redis_options list"
  f_panicked :: bool

text \<open>The two nested groups, in UTF-8: "automatic selection" and "failover".\<close>

definition auto_select :: string where
  "auto_select = map char_of [232 :: nat, 135, 170, 229, 138, 168, 233, 128, 137, 230, 139, 169]"

definition fail_over :: string where
  "fail_over = map char_of [230 :: nat, 149, 133, 233, 154, 156, 232, 189, 172, 231, 167, 187]"

definition follow_interval :: "follow_cfg \<Rightarrow> duration" where
  "follow_interval cfg =
     (let interval = dur_mul (FInterval cfg) second in if interval \<le> 0 then 10 * second else interval)"

definition follow_node :: "follow_cfg \<Rightarrow> (string \<Rightarrow> string \<Rightarrow> http_outcome) \<Rightarrow> string option" where
  "follow_node cfg http =
     do { node \<leftarrow> follow_now cfg http (FGroup cfg);
          if node = auto_select \<or> node = fail_over then follow_now cfg http node else Some node }"

text \<open>One round: \<open>ping\<close> is the outcome of pinging the candidate backend, \<open>None\<close> for success.\<close>

definition follow_round ::
  "follow_cfg \<Rightarrow> string \<Rightarrow> int \<Rightarrow> (string \<Rightarrow> string \<Rightarrow> http_outcome) \<Rightarrow> (redis_options \<Rightarrow> string option) \<Rightarrow>
   follow_state \<Rightarrow> follow_state" where
  "follow_round cfg password db http ping s =
     (case follow_node cfg http of
        None \<Rightarrow> s\<lparr>f_panicked := True\<rparr>
      | Some node \<Rightarrow>
          (case map_of (Backends cfg) node of
             None \<Rightarrow> s
           | Some be \<Rightarrow>
               if FbAddr be = f_current s then s
               else
                 (let rdb = redisx_New (FbAddr be) [] password db 8 True (SNI be)
                  in case ping rdb of
                       Some err \<Rightarrow> s\<lparr>f_closed := f_closed s @ [rdb]\<rparr>
                     | None \<Rightarrow>
                         (let (c', old) = SwapRedis (f_client s) rdb
                          in s\<lparr>f_current := FbAddr be, f_client := c', f_closed := f_closed s @ [old]\<rparr>))))"

text \<open>The loop: one element per round, until the context ends or a round panics.\<close>

fun RunFollow ::
  "follow_cfg \<Rightarrow> string \<Rightarrow> int \<Rightarrow> follow_state \<Rightarrow>
   ((string \<Rightarrow> string \<Rightarrow> http_outcome) \<times> (redis_options \<Rightarrow> string option)) list \<Rightarrow> follow_state" where
  "RunFollow cfg password db s [] = s"
| "RunFollow cfg password db s ((http, ping) # rest) =
     (if f_panicked s then s else RunFollow cfg password db (follow_round cfg password db http ping s) rest)"

definition follow_init :: "Client \<Rightarrow> follow_state" where
  "follow_init c = \<lparr>f_current = [], f_client = c, f_closed = [], f_panicked = False\<rparr>"

section \<open>Invariant\<close>

text \<open>The client talks to the backend recorded as current, over TLS.\<close>

definition pinned :: "follow_cfg \<Rightarrow> Client \<Rightarrow> follow_state \<Rightarrow> bool" where
  "pinned cfg c0 s \<longleftrightarrow>
     (f_current s = [] \<and> c_rdb (f_client s) = c_rdb c0) \<or>
     (opt_addr (c_rdb (f_client s)) = f_current s \<and> opt_tls (c_rdb (f_client s)) \<noteq> None \<and>
      f_current s \<in> (\<lambda>kv. FbAddr (snd kv)) ` set (Backends cfg))"

lemma redisx_New_fields [simp]:
  "opt_addr (redisx_New ad u p db n tls sn) = ad"
  "opt_tls (redisx_New ad u p db n True sn) \<noteq> None"
  by (simp_all add: redisx_New_def Let_def)

lemma pinned_round:
  assumes "pinned cfg c0 s"
  shows "pinned cfg c0 (follow_round cfg password db http ping s)"
proof -
  have "FbAddr be \<in> (\<lambda>kv. FbAddr (snd kv)) ` set (Backends cfg)" if "map_of (Backends cfg) node = Some be" for node be
    using map_of_SomeD [OF that] by force
  with assms show ?thesis
    by (auto simp: follow_round_def SwapRedis_def pinned_def Let_def split: option.splits)
qed

lemma pinned_run: "pinned cfg c0 s \<Longrightarrow> pinned cfg c0 (RunFollow cfg password db s rounds)"
  by (induction cfg password db s rounds rule: RunFollow.induct) (simp_all add: pinned_round)

section \<open>Properties\<close>

text \<open>
  C37: Following keeps the client pinned to a known backend: after any number of rounds the
  client still uses the backend it was started with, or a configured one, over TLS, whose
  address is the one recorded as current.
\<close>

theorem RunFollow_pinned:
  assumes "s = RunFollow cfg password db (follow_init c) rounds"
  shows "c_rdb (f_client s) = c_rdb c \<and> f_current s = [] \<or>
    (opt_addr (c_rdb (f_client s)) = f_current s \<and> opt_tls (c_rdb (f_client s)) \<noteq> None \<and>
     (\<exists>node be. (node, be) \<in> set (Backends cfg) \<and> FbAddr be = f_current s))"
proof -
  have "pinned cfg c (follow_init c)" by (simp add: pinned_def follow_init_def)
  with assms have "pinned cfg c s" by (simp add: pinned_run)
  then show ?thesis by (force simp: pinned_def)
qed

text \<open>
  A switch happens only to a backend that answers a ping, and it clears the local cache;
  a round that does not switch leaves the client exactly as it was.
\<close>

theorem follow_round_switch:
  assumes "s' = follow_round cfg password db http ping s"
  shows "f_client s' = f_client s \<and> f_current s' = f_current s \<or>
    (\<exists>node be. follow_node cfg http = Some node \<and> map_of (Backends cfg) node = Some be \<and> f_current s' = FbAddr be \<and>
       ping (c_rdb (f_client s')) = None \<and> opt_addr (c_rdb (f_client s')) = FbAddr be \<and>
       c_local (f_client s') = Map.empty \<and> f_closed s' = f_closed s @ [c_rdb (f_client s)])"
  using assms by (auto simp: follow_round_def SwapRedis_def Let_def split: option.splits if_splits)

lemma RunFollow_stays:
  "follow_round cfg password db http ping s = s \<Longrightarrow> RunFollow cfg password db s (replicate n (http, ping)) = s"
  by (induction n) simp_all

lemma follow_now_reports:
  assumes "http (API cfg @ ''/proxies/'' @ PathEscape grp) (''Bearer '' @ Token cfg) = DoBody (Json (JObj kvs))"
    and "[v. (k, JStr v) \<leftarrow> kvs, to_lower k = ''now''] = [node]"
  shows "follow_now cfg http grp = Some node"
proof -
  have "foldl set_now old kvs = last (old # [v. (k, JStr v) \<leftarrow> kvs, to_lower k = ''now''])" for old
  proof (induction kvs arbitrary: old)
    case (Cons kv kvs)
    then show ?case by (cases "(old, kv)" rule: set_now.cases) auto
  qed simp
  from this [of "[]"] assms show ?thesis by (simp add: follow_now_def)
qed

text \<open>
  C31: The follower reaches the node in use and stays there.  When the controller, asked at the
  escaped path of the configured group with the configured token, reports a nested group, and
  asked for that group reports a configured node whose backend answers the ping, then after
  the first round the client is connected to that node's backend over TLS with an empty local
  cache, and the old connection is closed, unless that backend was in use already; any number
  of further rounds with the same reports changes nothing, so connection and cache are kept.
\<close>

theorem RunFollow_converges:
  assumes "\<not> f_panicked s" and "nested \<in> {auto_select, fail_over}"
    and "http (API cfg @ ''/proxies/'' @ PathEscape (FGroup cfg)) (''Bearer '' @ Token cfg) =
           DoBody (Json (JObj [(''now'', JStr nested)]))"
    and "http (API cfg @ ''/proxies/'' @ PathEscape nested) (''Bearer '' @ Token cfg) = DoBody (Json (JObj kvs))"
    and "[v. (k, JStr v) \<leftarrow> kvs, to_lower k = ''now''] = [node]"
    and "map_of (Backends cfg) node = Some be" and "\<And>rdb. opt_addr rdb = FbAddr be \<Longrightarrow> ping rdb = None"
    and "s' = RunFollow cfg password db s (replicate (Suc n) (http, ping))"
  shows "s' = RunFollow cfg password db s [(http, ping)] \<and> f_current s' = FbAddr be \<and> \<not> f_panicked s' \<and>
    (if f_current s = FbAddr be then s' = s
     else opt_addr (c_rdb (f_client s')) = FbAddr be \<and> opt_tls (c_rdb (f_client s')) \<noteq> None \<and>
       c_local (f_client s') = Map.empty \<and> f_closed s' = f_closed s @ [c_rdb (f_client s)])"
proof -
  let ?s1 = "follow_round cfg password db http ping s"
  have "to_lower ''now'' = ''now''" by code_simp
  then have "follow_now cfg http (FGroup cfg) = Some nested" 
    using assms(3) by (intro follow_now_reports [of http cfg _ "[(''now'', JStr nested)]"]) simp_all
  with assms(2) follow_now_reports [of http cfg nested kvs node, OF assms(4,5)] have node: "follow_node cfg http = Some node"
    by (auto simp: follow_node_def)
  have again: "follow_round cfg password db http ping ?s1 = ?s1"
    using assms(6,7) node by (auto simp: follow_round_def SwapRedis_def Let_def split: option.splits)
  have "s' = ?s1" using assms(1,8) RunFollow_stays [OF again, of n] by simp
  moreover have "f_current ?s1 = FbAddr be \<and> \<not> f_panicked ?s1 \<and>
    (if f_current s = FbAddr be then ?s1 = s
     else opt_addr (c_rdb (f_client ?s1)) = FbAddr be \<and> opt_tls (c_rdb (f_client ?s1)) \<noteq> None \<and>
       c_local (f_client ?s1) = Map.empty \<and> f_closed ?s1 = f_closed s @ [c_rdb (f_client s)])"
    using assms(1,6,7) node by (auto simp: follow_round_def SwapRedis_def Let_def split: option.splits)
  ultimately show ?thesis using assms(1) by simp
qed

section \<open>Witnesses\<close>

definition toy_follow :: follow_cfg where
  "toy_follow = \<lparr>API = ''http://127.0.0.1:9090'', Token = ''t'', FGroup = ''PROXY'', FInterval = 0,
     Backends = [(''tokyo'', \<lparr>FbAddr = ''tokyo.example:6380'', SNI = []\<rparr>)]\<rparr>"

definition tokyo_http :: "string \<Rightarrow> string \<Rightarrow> http_outcome" where
  "tokyo_http url auth =
     (if auth \<noteq> ''Bearer t'' then DoError ''unauthorized''
      else if url = ''http://127.0.0.1:9090/proxies/PROXY'' then DoBody (Json (JObj [(''now'', JStr auto_select)]))
      else if url = ''http://127.0.0.1:9090/proxies/%E8%87%AA%E5%8A%A8%E9%80%89%E6%8B%A9''
        then DoBody (Json (JObj [(''alive'', JBool True), (''now'', JStr ''tokyo'')]))
      else DoError ''not found'')"

lemma tokyo_paths:
  "PathEscape ''PROXY'' = ''PROXY''" "PathEscape auto_select = ''%E8%87%AA%E5%8A%A8%E9%80%89%E6%8B%A9''"
  by code_simp+

theorem RunFollow_pinned_witness:
  "\<exists>s. s = RunFollow toy_follow [] 0 (follow_init toy_client) [(tokyo_http, \<lambda>_. None)] \<and>
    (c_rdb (f_client s) = c_rdb toy_client \<and> f_current s = [] \<or>
     (opt_addr (c_rdb (f_client s)) = f_current s \<and> opt_tls (c_rdb (f_client s)) \<noteq> None \<and>
      (\<exists>node be. (node, be) \<in> set (Backends toy_follow) \<and> FbAddr be = f_current s)))"
  using RunFollow_pinned [OF refl, of toy_follow "[]" 0 toy_client "[(tokyo_http, \<lambda>_. None)]"] by blast

theorem follow_round_switch_witness:
  "f_client (follow_round toy_follow [] 0 (\<lambda>url auth. DoError ''refused'') (\<lambda>_. None) (follow_init toy_client)) = toy_client"
  using follow_round_switch [OF refl, of toy_follow "[]" 0 "\<lambda>url auth. DoError ''refused''" "\<lambda>_. None" "follow_init toy_client"]
  by (simp add: toy_follow_def follow_node_def follow_now_def follow_init_def auto_select_def fail_over_def)

theorem RunFollow_converges_witness:
  "let s' = RunFollow toy_follow [] 0 (follow_init toy_client) (replicate (Suc 2) (tokyo_http, \<lambda>_. None)) in
   f_current s' = ''tokyo.example:6380'' \<and> opt_addr (c_rdb (f_client s')) = ''tokyo.example:6380'' \<and>
   f_closed s' = [c_rdb toy_client]"
proof -
  let ?s = "follow_init toy_client" and ?be = "\<lparr>FbAddr = ''tokyo.example:6380'', SNI = []\<rparr>"
  let ?s' = "RunFollow toy_follow [] 0 ?s (replicate (Suc 2) (tokyo_http, \<lambda>_. None))"
  have low: "to_lower ''now'' = ''now''" "to_lower ''alive'' = ''alive''" by code_simp+
  let ?kvs = "[(''alive'', JBool True), (''now'', JStr ''tokyo'')]"
  have first: "tokyo_http (API toy_follow @ ''/proxies/'' @ PathEscape (FGroup toy_follow)) (''Bearer '' @ Token toy_follow) =
      DoBody (Json (JObj [(''now'', JStr auto_select)]))"
    and second: "tokyo_http (API toy_follow @ ''/proxies/'' @ PathEscape auto_select) (''Bearer '' @ Token toy_follow) =
      DoBody (Json (JObj ?kvs))"
    by (simp_all add: toy_follow_def tokyo_http_def tokyo_paths)
  have others: "\<not> f_panicked ?s" "auto_select \<in> {auto_select, fail_over}"
    "[v. (k, JStr v) \<leftarrow> ?kvs, to_lower k = ''now''] = [''tokyo'']" "map_of (Backends toy_follow) ''tokyo'' = Some ?be"
    by (simp_all add: follow_init_def low toy_follow_def)
  show ?thesis
    using RunFollow_converges [of ?s auto_select tokyo_http toy_follow ?kvs "''tokyo''" ?be "\<lambda>_. None" ?s' "[]" 0 2,
        OF others(1,2) first second others(3,4) refl refl, THEN conjunct2]
    by (simp add: Let_def follow_init_def del: RunFollow.simps replicate_Suc)
qed

end
