(* ===== verification/Serve.thy ===== *)
theory Serve
  imports Client
begin

text \<open>
  The front ends of the client (\<open>ListenAndServe\<close>, \<open>serveDoH\<close> and \<open>rdbGet\<close> of
  \<open>internal/client/client.go\<close>): which goroutines it starts, when and how it ends, and which
  handler a request reaches.  The listeners belong to the DNS and HTTP packages; they appear
  as the events by which they report back.
\<close>

section \<open>Starting and ending\<close>

definition rdbGet :: "Client \<Rightarrow> redis_options" where
  "rdbGet c = c_rdb c"

datatype client_goroutine = CDispatcher | CSubscriber | CDoH string | CListener string string

datatype listen_event = ListenerEnds string "string option" | ListenDone

definition client_goroutines :: "string \<Rightarrow> string \<Rightarrow> client_goroutine list" where
  "client_goroutines address dohAddr =
     [CDispatcher, CSubscriber] @ (if dohAddr \<noteq> [] then [CDoH dohAddr] else []) @
     [CListener ''udp'' address, CListener ''tcp'' address]"

text \<open>
  The goroutines, and the outcome once the \<open>select\<close> has picked an event: the error returned and
  the listeners shut down; \<open>None\<close> while it waits.
\<close>

definition ListenAndServe ::
  "string \<Rightarrow> string \<Rightarrow> listen_event list \<Rightarrow> client_goroutine list \<times> (string option \<times> string list) option" where
  "ListenAndServe address dohAddr evs =
     (client_goroutines address dohAddr,
      (case evs of
         [] \<Rightarrow> None
       | ListenerEnds net err # rest \<Rightarrow> Some (err, [''udp'', ''tcp''])
       | ListenDone # rest \<Rightarrow> Some (None, [''udp'', ''tcp''])))"

section \<open>The HTTP front end\<close>

text \<open>The mux knows one path; for any other one \<open>net/http\<close> answers 404.\<close>

definition serveDoH_mux ::
  "'r env \<Rightarrow> Client \<Rightarrow> timestamp \<Rightarrow> timestamp \<Rightarrow> (string \<Rightarrow> string \<Rightarrow> u16 \<Rightarrow> string + response) \<Rightarrow>
   string \<Rightarrow> http_request \<Rightarrow> http_response \<times> Client" where
  "serveDoH_mux E c t1 t2 sfDo path req =
     (if path = ''/dns-query'' then dohHandler E c t1 t2 sfDo req
      else (http_Error ''404 page not found'' 404, c))"

datatype doh_event = DohFails string | DohCtxDone

text \<open>How \<open>serveDoH\<close> ends: \<open>Some (Some err)\<close> when it logs an error; the rest of the client goes on.\<close>

fun serveDoH :: "doh_event list \<Rightarrow> string option option" where
  "serveDoH [] = None"
| "serveDoH (DohFails err # evs) = Some (Some err)"
| "serveDoH (DohCtxDone # evs) = Some None"

section \<open>Properties\<close>

text \<open>
  C34: The front ends share one cache.  A query over DNS that is answered by a request, with a
  message that unpacks, gets that message under its own ID; and from then until the message
  expires locally, a DoH request for the same name and type, by GET with the URL-safe base64 of the
  query or by POST of it, in any spelling of the name, is answered with status 200 and
  the bytes of that message, without another request and without changing the client.
\<close>

theorem frontends_share_cache:
  assumes "m_question r = [q]" and "fst (localGet c t1 (CacheKey (to_lower (Fqdn E (q_name q))) (q_type q))) = None"
    and "sfDo (CacheKey (to_lower (Fqdn E (q_name q))) (q_type q)) (to_lower (Fqdn E (q_name q))) (q_type q) = Inr resp"
    and "Unpack E (rsp_wire resp) = Inr stored" and "client_handle E c t1 t2 sfDo r = (m, c')"
    and "Unpack E b = Inr r2" and "m_question r2 = [q2]" and "q_type q2 = q_type q"
    and "to_lower (Fqdn E (q_name q2)) = to_lower (Fqdn E (q_name q))" and "length b \<le> 65536"
    and "t3 \<le> t2 + local_lifetime E c (rsp_wire resp)"
    and "req = \<lparr>h_method = ''GET'', h_dns = rawurl_encode b, h_content_type = ct, h_body = bd\<rparr> \<or>
         req = \<lparr>h_method = ''POST'', h_dns = d, h_content_type = ''application/dns-message'', h_body = Body b\<rparr>"
  shows "m = stored\<lparr>m_id := m_id r\<rparr> \<and>
    serveDoH_mux E c' t3 t4 sfDo2 ''/dns-query'' req =
      (\<lparr>h_status = 200, h_ctype = ''application/dns-message'', h_data = rsp_wire resp\<rparr>, c')"
proof -
  obtain c1 where q: "resolveQuery E c t1 t2 sfDo r = ((Some (rsp_wire resp), RcodeSuccess), c1)"
    using resolveQuery_cases [OF assms(1) refl refl, of E c t1 t2 sfDo] assms(2,3) by simp
  with assms(4,5) have m: "m = stored\<lparr>m_id := m_id r\<rparr>" "c' = c1"
    by (simp_all add: client_handle_def reply_def)
  have "resolveQuery E c1 t3 t4 sfDo2 r2 = ((Some (rsp_wire resp), RcodeSuccess), c1)"
    by (rule answered_is_local [OF assms(1,7,8,9,2) q assms(11)])
  moreover have "doh_decode E req = Inr r2"
    using assms(6,10,12) by (auto simp: doh_decode_def rawurl_decode_encode)
  ultimately show ?thesis
    using m by (simp add: serveDoH_mux_def dohHandler_def Let_def)
qed

theorem frontends_share_cache_witness:
  "let c' = snd (client_handle dns_env toy_client 1000 1000 answered toy_query);
       (resp, c2) = serveDoH_mux dns_env c' 2000 2000 (\<lambda>k n t. Inl ''not asked'') ''/dns-query''
         \<lparr>h_method = ''GET'', h_dns = rawurl_encode ''wire'', h_content_type = [], h_body = ReadError\<rparr>
   in m_id (fst (client_handle dns_env toy_client 1000 1000 answered toy_query)) = 99 \<and>
      h_status resp = 200 \<and> h_data resp = ''wire'' \<and> c2 = c'"
proof -
  let ?c = "client_handle dns_env toy_client 1000 1000 answered toy_query"
  have u: "Unpack dns_env ''wire'' = Inr two_ip_msg" by (simp add: dns_env_def)
  have f: "Fqdn dns_env ''example.com.'' = ''example.com.''" by (simp add: dns_env_def stub_env_def)
  have qs: "m_question two_ip_msg = [\<lparr>q_name = ''example.com.'', q_type = 1, q_class = 1\<rparr>]"
    by (simp add: two_ip_msg_def Let_def)
  have "fst ?c = two_ip_msg\<lparr>m_id := m_id toy_query\<rparr> \<and>
    serveDoH_mux dns_env (snd ?c) 2000 2000 (\<lambda>k n t. Inl ''not asked'') ''/dns-query''
      \<lparr>h_method = ''GET'', h_dns = rawurl_encode ''wire'', h_content_type = [], h_body = ReadError\<rparr> =
    (\<lparr>h_status = 200, h_ctype = ''application/dns-message'', h_data = rsp_wire (toy_response\<lparr>rsp_resolved_at := 500\<rparr>)\<rparr>, snd ?c)"
    by (rule frontends_share_cache [OF toy_query_fields(1) toy_miss refl _ prod.collapse [symmetric] u qs])
       (simp_all add: u f dns_env_wire second_def)
  then show ?thesis by (simp add: Let_def)
qed

end
