(* ===== verification/Binaries.thy ===== *)
theory Binaries
  imports Server Follow Serve
begin

text \<open>
  \<open>cmd/server/main.go\<close> and \<open>cmd/client/main.go\<close>: how the two programs are put together from a
  loaded configuration, the start-up ping both begin with, and how the two processes end.
  The configuration path is the value of the one flag; a signal is the end of the context.
  Logging is left out, but for the message of a fatal exit.
\<close>

section \<open>Start-up\<close>

text \<open>
  One element per attempt: whether the ping succeeded and, if not, whether the context ended
  while waiting (with its error) or the second passed.  \<open>None\<close> while attempts are left and no
  event is; \<open>Some None\<close> is success.
\<close>

fun ping_attempts :: "nat \<Rightarrow> (bool \<times> string option) list \<Rightarrow> string option option" where
  "ping_attempts 0 evs = Some (Some ''redis unreachable after 10 attempts'')"
| "ping_attempts (Suc n) [] = None"
| "ping_attempts (Suc n) ((ok, ended) # evs) =
     (if ok then Some None
      else case ended of Some err \<Rightarrow> Some (Some err) | None \<Rightarrow> ping_attempts n evs)"

definition ping :: "(bool \<times> string option) list \<Rightarrow> string option option" where
  "ping evs = ping_attempts 10 evs"

section \<open>Putting the programs together\<close>

definition server_setup :: "'r env \<Rightarrow> config \<Rightarrow> redis_options \<times> 'r Server" where
  "server_setup E cfg =
     (let pool = (if PoolSize (Redis cfg) = 0 then 32 else PoolSize (Redis cfg));
          rdb = redisx_New (Addr (Redis cfg)) (Username (Redis cfg)) (Password (Redis cfg))
                  (DB (Redis cfg)) pool (TLS (Redis cfg)) (ServerName (Redis cfg));
          res = Resolver_New (UpAddr (Upstream cfg)) (Network (Upstream cfg))
                  (dur_mul (Timeout (Upstream cfg)) second);
          res = (if IsEnabled (Race cfg) then
                   res\<lparr>r_race := Some (EnableRace (PortList (Race cfg)) (TimeoutDur (Race cfg))
                                        (TCPDeadlineDur (Race cfg)) (ICMPEnabled (Race cfg))),
                       r_pref := Some (EnablePref (NewRedisPrefBackend E) (PrefTTLDur (Race cfg))
                                        (PrefNegTTLDur (Race cfg)) (RecheckHitsN (Race cfg))
                                        (RecheckAgeDur (Race cfg)))\<rparr>
                 else res)
      in (rdb, Server_New E res (Group cfg) (Consumer cfg) (dur_mul (CacheTTL cfg) second)
                 (dur_mul (NegTTL cfg) second) (RespMax cfg) (Workers cfg)
                 (dur_mul (Interval (Prefetch cfg)) second) (TopNN (Prefetch cfg))
                 (DecayDur (Prefetch cfg))))"


section \<open>The two programs\<close>





section \<open>Properties\<close>

lemma ping_attempts_facts:
  "ping_attempts n evs = Some None \<longleftrightarrow>
     (\<exists>i < n. i < length evs \<and> fst (evs ! i) \<and> (\<forall>j < i. evs ! j = (False, None)))"
proof (induction n evs rule: ping_attempts.induct)
  case (3 n ok ended evs)
  then show ?case
    by (cases ok; cases ended) (auto simp: Ex_less_Suc2 All_less_Suc2)
qed auto

text \<open>
  The start-up ping gives up after ten failures, and not before: it reports success
  exactly when one of the first ten attempts succeeds and the context did not end before.
\<close>

theorem ping_ten_attempts:
  "(ping evs = Some None \<longleftrightarrow>
     (\<exists>i < 10. i < length evs \<and> fst (evs ! i) \<and> (\<forall>j < i. evs ! j = (False, None)))) \<and>
   (10 \<le> length evs \<longrightarrow> ping evs \<noteq> None)"
proof -
  have "n \<le> length es \<Longrightarrow> ping_attempts n es \<noteq> None" for n es
    by (induction n es rule: ping_attempts.induct) (auto split: option.splits)
  then show ?thesis using ping_attempts_facts [of 10 evs] by (simp add: ping_def)
qed

text \<open>
  C38: Every server built from a configuration that \<open>Load\<close> returned is fit to run: it has at
  least one worker, a positive response cap and upstream timeout, a non-empty consumer
  group, preferences kept in Redis whenever it races answers, and a race with at least one
  port and positive limits; the upstream timeout only has to fit \<open>time.Duration\<close>.
\<close>

theorem server_setup_fit:
  assumes "Load read_file yaml_unmarshal getenv path = Inr cfg" and "server_setup E cfg = (rdb, s)"
    and "Timeout (Upstream cfg) < 2 ^ 33"
  shows "s_workers s \<ge> 1 \<and> s_respMax s > 0 \<and> s_group s \<noteq> [] \<and> opt_pool_size rdb \<ge> 1 \<and>
    r_timeout (s_res s) > 0 \<and> r_network (s_res s) \<noteq> [] \<and> redis_backed E (s_res s) \<and>
    (IsEnabled (Race cfg) \<longleftrightarrow> r_race (s_res s) \<noteq> None) \<and>
    (\<forall>rc. r_race (s_res s) = Some rc \<longrightarrow> rc_ports rc \<noteq> [] \<and> rc_timeout rc > 0) \<and>
    (\<forall>ps. r_pref (s_res s) = Some ps \<longrightarrow> ps_ttl ps > 0 \<and> ps_negTTL ps > 0 \<and> ps_recheckHits ps > 0 \<and> ps_recheckAge ps > 0)"
proof -
  have ok: "config_ok cfg" using assms(1) by (auto elim!: Load_Inr simp: finalize_ok)
  have pos: "dur_mul x second > 0" if "0 < x" "x < 2 ^ 33" for x
  proof -
    have "in_int64 (x * second)" using that by (simp add: in_int64_def second_def)
    with that show ?thesis by (simp add: dur_mul_def wrap64_id second_def)
  qed
  have pool: "opt_pool_size (redisx_New a u p d n t sn) \<ge> 1" for a u p d n t sn
    by (simp add: redisx_New_def Let_def)
  have "rdb = redisx_New (Addr (Redis cfg)) (Username (Redis cfg)) (Password (Redis cfg)) (DB (Redis cfg))
      (if PoolSize (Redis cfg) = 0 then 32 else PoolSize (Redis cfg)) (TLS (Redis cfg)) (ServerName (Redis cfg))"
    using assms(2) by (simp add: server_setup_def Let_def)
  with pool have "opt_pool_size rdb \<ge> 1" by simp
  moreover have "s_workers s \<ge> 1" "s_respMax s > 0" "s_group s = Group cfg"
    using assms(2) by (auto simp: server_setup_def Server_New_def Let_def)
  moreover have "r_timeout (s_res s) = dur_mul (Timeout (Upstream cfg)) second"
    "r_network (s_res s) = Network (Upstream cfg)"
    "r_race (s_res s) = (if IsEnabled (Race cfg) then Some (EnableRace (PortList (Race cfg)) (TimeoutDur (Race cfg))
        (TCPDeadlineDur (Race cfg)) (ICMPEnabled (Race cfg))) else None)"
    "r_pref (s_res s) = (if IsEnabled (Race cfg) then Some (EnablePref (NewRedisPrefBackend E) (PrefTTLDur (Race cfg))
        (PrefNegTTLDur (Race cfg)) (RecheckHitsN (Race cfg)) (RecheckAgeDur (Race cfg))) else None)"
    using assms(2) by (auto simp: server_setup_def Server_New_def Resolver_New_def Let_def)
  moreover have "EnableRace ps t d i = rc \<Longrightarrow> rc_ports rc \<noteq> [] \<and> rc_timeout rc > 0" for ps t d i rc
    by (auto simp: EnableRace_def Let_def second_def split: if_splits)
  moreover have "ps_ttl (EnablePref b x y h a) > 0 \<and> ps_negTTL (EnablePref b x y h a) > 0 \<and>
      ps_recheckHits (EnablePref b x y h a) > 0 \<and> ps_recheckAge (EnablePref b x y h a) > 0 \<and>
      ps_backend (EnablePref b x y h a) = b" for b :: "'a PrefBackend" and x y h a
    by (simp add: EnablePref_def Let_def duration_units)
  ultimately show ?thesis
    using ok pos assms(3) by (auto simp: config_ok_def redis_backed_def)
qed







section \<open>Witnesses\<close>

lemma load_default: "Load (\<lambda>f. Inl []) (\<lambda>b c. Inr c) (\<lambda>v. []) [] = Inr Default"
proof -
  have "config_ok Default" by (simp add: config_ok_def Default_def)
  then show ?thesis by (simp add: Load_def applyEnv_def finalize_id)
qed


theorem ping_ten_attempts_witness:
  "ping [(False, None), (True, None)] = Some None \<and> ping (replicate 10 (False, None)) \<noteq> None"
proof -
  have "ping [(False, None), (True, None)] = Some None"
    using ping_ten_attempts [of "[(False, None), (True, None)]"] by (auto intro!: exI [of _ 1])
  with ping_ten_attempts [of "replicate 10 (False, None)"] show ?thesis by simp
qed

theorem server_setup_fit_witness:
  "let s = snd (server_setup (mem_env stub_env) Default) in
   s_workers s \<ge> 1 \<and> s_respMax s > 0 \<and> s_group s \<noteq> [] \<and> redis_backed (mem_env stub_env) (s_res s)"
proof -
  show ?thesis
    using server_setup_fit [OF load_default prod.collapse [symmetric], of "mem_env stub_env"]
    by (simp add: Default_def Let_def)
qed



end
