(* ===== verification/Spec2Isabelle.thy ===== *)
theory Spec2Isabelle
  imports Batch Stale Probe ResolveTime Binaries
begin

text \<open>
  Verification of redis-dns, a DNS resolver split over Redis.

  \<^bold>\<open>The program.\<close>  A client on the LAN (\<open>internal/client\<close>) answers DNS and DNS-over-HTTPS
  queries from a local cache.  On a miss it appends a request to a Redis stream and waits for
  the message with its request ID on a response stream.  A server at the exit
  (\<open>internal/server\<close>) reads the requests, answers them from the Redis cache or through an
  upstream resolver (\<open>internal/resolver\<close>), caches and broadcasts fresh answers, counts
  queries, and prefetches configured and popular names.  The resolver may race the addresses
  of an answer against each other with TCP and ICMP probes, narrow the answer to the winner
  and remember the winner in Redis.  A client may follow a proxy node and swap its backend.

  \<^bold>\<open>The theories, in the order of import.\<close>
  \<^item> \<open>Prelude\<close>: Go's integers, durations and the string functions used; the locale \<open>codec\<close>
    (decoding undoes encoding), interpreted for decimal numbers here, for base64 in \<open>Base64\<close>
    and for the three payloads in \<open>Proto\<close>.
  \<^item> \<open>NetIP\<close>, \<open>IPv6Text\<close>: \<open>net.IP\<close>, its equality, printing and parsing, with the round trip
    for every IPv4 and IPv6 address.  \<open>Base64\<close>: \<open>encoding/base64\<close>.
  \<^item> \<open>Proto\<close> (\<open>proto/proto.go\<close>): \<open>Request\<close>, \<open>Response\<close>, \<open>Update\<close> and their JSON form.
  \<^item> \<open>Redisx\<close> (\<open>redisx/redisx.go\<close>): keys, client options, keepalive.
  \<^item> \<open>Config\<close> (\<open>config/config.go\<close>): records, accessors, \<open>Default\<close>, \<open>Load\<close>, \<open>finalize\<close>.
  \<^item> \<open>World\<close>: the boundary.  The record \<open>env\<close> holds the code that is not in the repository
    (DNS library, upstream exchange, reports of the probes, Redis server, clock); \<open>world\<close> is
    the state a run threads through: Redis contents, number of effects so far, commands
    issued, counting queue.  Effectful functions are state monads over it.
  \<^item> \<open>RedisServer\<close>: the documented effect of the Redis commands as locales \<open>redis_strings\<close>,
    \<open>redis_hash\<close> and \<open>redis_zset\<close>, and an in-memory server that satisfies all three.
  \<^item> \<open>Race\<close>, \<open>Pref\<close>, \<open>Resolver\<close>, \<open>Icmp\<close> (\<open>resolver/race.go\<close>, \<open>pref.go\<close>, \<open>pref_redis.go\<close>,
    \<open>resolver.go\<close>, \<open>icmp.go\<close>): \<open>pickWinner\<close> as a fold of \<open>race_step\<close> over the events its
    select receives; the preference cache over the locale \<open>pref_backend\<close>, which every
    \<open>redis_hash\<close> implements; \<open>applyRace\<close>, \<open>Resolve\<close>, \<open>MinTTL\<close>; the echo probe.
  \<^item> \<open>Probe\<close> (\<open>race.go\<close>): \<open>tcpDial\<close> and the goroutines of a race; the events that real dials
    and echoes can produce, so that the results on \<open>pickWinner\<close> speak about the network.
  \<^item> \<open>Stats\<close>, \<open>Server\<close> (\<open>server/stats.go\<close>, \<open>server.go\<close>): counting, ranking over the locale
    \<open>rank_store\<close>, which every \<open>redis_zset\<close> implements; workers, \<open>handle\<close>, cache, broadcast
    and the prefetch sweeps.
  \<^item> \<open>Waiters\<close>, \<open>Client\<close>, \<open>Follow\<close> (\<open>client/client.go\<close>, \<open>follow.go\<close>): the table of pending
    requests and the dispatcher as the step relation \<open>client_step\<close>; the local cache as an
    instance of the locale \<open>versioned_store\<close>; DNS and DoH front ends, subscriber, node
    following.  \<open>ResolveTime\<close>: the two \<open>select\<close>s of \<open>resolve\<close> placed in time.  \<open>Serve\<close>: what
    \<open>ListenAndServe\<close> and \<open>serveDoH\<close> start, which handler a request reaches, how they end.
  \<^item> \<open>Binaries\<close> (\<open>cmd/server/main.go\<close>, \<open>cmd/client/main.go\<close>): assembly from a configuration
    and the two \<open>main\<close> functions up to their exit.
  \<^item> \<open>Provenance\<close>: a small Hoare logic for the state monad (\<open>keeps\<close>) and where the bytes that
    the server writes come from.  \<open>Sweep\<close>, \<open>System\<close>: the prefetch goroutine and the handler cut
    into steps between their Redis commands (\<open>sweep_step\<close>, \<open>task_step\<close>; the uncut functions of
    \<open>Server\<close> are shown to be runs of these steps), and server, Redis and any number of clients
    as the step relation \<open>sys_step\<close>; its invariant is \<open>sys_sound\<close>.  \<open>Batch\<close>: many handlers at
    once, with a multiset of what each still owes.  \<open>Stale\<close>: a run of the system that ends with
    an outdated answer in a local cache.

  \<^bold>\<open>What is shown.\<close>  A record's journey: an answer resolved by the server reaches the LAN
  unchanged but for the message ID (below), payloads survive their encoding (\<open>Proto\<close>), cache
  keys do not collide (\<open>Redisx\<close>), a broadcast warms every client (below), and in every
  reachable state of the whole system each answer served is an upstream answer to the very
  question asked (\<open>System\<close>).  Requests: each one gets exactly one response and one
  acknowledgement, alone (\<open>Server\<close>) and in any interleaving with others (\<open>Batch\<close>), and a
  caller only ever receives the response to its own request,
  over every interleaving of callers and dispatcher (\<open>Waiters\<close>), within twice the blocking
  time (\<open>ResolveTime\<close>); the DNS and DoH front ends share one cache (\<open>Serve\<close>).  Caches: lifetimes never
  exceed the ceiling or a positive TTL (\<open>Server\<close>), the local cache keeps the newest version
  and serves until expiry (\<open>Client\<close>).  Racing: the winner rests on a launched, successful
  probe, that is on a connection really established or an echo really answered (\<open>Probe\<close>),
  the documented precedence of TCP and ICMP holds, the race ends, and narrowing never
  empties an answer (\<open>Race\<close>, \<open>Resolver\<close>); remembered winners are reused, boundedly often
  (\<open>Pref\<close>).  Following: the client stays pinned to a known backend and reaches the node in use
  (\<open>Follow\<close>).  Ranking: what is accepted into the counting queue is written once, held or
  still queued, decay prunes, and
  only popular names are prefetched (\<open>Stats\<close>, \<open>Server\<close>).  Some theorems record what the
  code does where it was not meant to: an expired preference entry that a bump revives without
  a lifetime, a duplicate response that blocks the dispatcher, the ICMPv6 type comparison that
  keeps ICMP out of every IPv6 race, the DoH reply that keeps a foreign ID, the timer that is
  armed twice, the cache hit that is stamped as fresh.

  \<^bold>\<open>Parameters and their hypotheses.\<close>  The fields of \<open>env\<close> are arbitrary functions; the
  index of \<open>SetQuestion\<close>, \<open>Exchange\<close>, \<open>probes\<close> and \<open>clock\<close> counts effects, so that repeated
  calls may answer differently.  What a property needs of them is a premise: unpacking undoes
  packing, a monotone clock, reports only about launched probes, the Redis laws
  (which leave out the eviction of keys under memory pressure).  The packages
  behind \<open>icmpPing\<close>, the YAML decoder, the environment, singleflight and the HTTP
  client that asks the controller are function arguments in the same way.  Every premise is discharged on concrete
  functions by a witness.

  \<^bold>\<open>Idealisations.\<close>  JSON is kept as a syntax tree after encoding, with the coercion of
  invalid UTF-8 that \<open>encoding/json\<close> performs.  Lower-casing is that of ASCII, the alphabet
  of DNS names in presentation form.  Scores are real numbers, not floats.  Points in time
  are unbounded integers in nanoseconds.  Goroutines appear as sequences of events (race, counter,
  probe, keepalive, prefetch loop) or as steps (client, handlers, sweep), quantified over all orders;
  a resolution with its preference commands is one step of them;
  every loop is a recursion over its events, so no definition needs fuel.

  \<^bold>\<open>Not modelled.\<close>  Log lines, flag parsing and signal handling (a \<open>main\<close> starts from the path of
  its configuration, and the end of its context is an event); the listeners and connection
  pools inside the DNS, HTTP and Redis packages; tests and deployment files.

  \<^bold>\<open>Next.\<close>  Singleflight's contract as a locale; the contents of the streams behind \<open>XREAD\<close> and
  \<open>XREADGROUP\<close>, with the dispatcher's position across a backend swap; the preference commands
  inside \<open>Resolve\<close> as steps of their own.
\<close>

section \<open>From a query to its reply\<close>

text \<open>
  What \<open>singleflight\<close> hands to the caller when the server's response travels back over the
  response stream: the dispatcher decodes the message and \<open>resolve\<close> checks the response.
\<close>

definition delivered :: "string \<Rightarrow> string \<Rightarrow> json_text \<Rightarrow> string + response" where
  "delivered lastID entry payload =
     (case snd (dispatcher_batch lastID [\<lparr>xm_id = entry, xm_values = [(''data'', payload)]\<rparr>]) of
        [] \<Rightarrow> Inl ''resolution timed out''
      | resp # _ \<Rightarrow> check_resp resp)"

lemma delivered_response:
  assumes "wf_response r" "rsp_err r = []" "rsp_wire r \<noteq> []"
  shows "delivered lastID entry (marshal_response r) = Inr r"
  using assms by (simp add: delivered_def unmarshal_marshal_response check_resp_def)

lemma resolve_fresh_result:
  assumes "run_state (Resolve E (s_res s) (req_name req) (req_type req)) w = (Inr answer, v)"
    and "Pack E answer = Inr wire" and "run_state (resolve_fresh E s req resp) w = (r, w')"
  shows "r = resp\<lparr>rsp_wire := wire, rsp_rcode := m_rcode answer, rsp_resolved_at := clock E (ticks v)\<rparr>"
  using assms by (auto simp: resolve_fresh_def split: prod.splits)

text \<open>
  C1: What the LAN sees is what the resolver produced.  When the server resolves a request
  and the response travels through the stream to the client, the reply to the query is the
  server's resolved message with every section, TTL and flag intact and only the ID replaced
  by the query's, whatever the case of the name in the query, provided only that the
  DNS library unpacks what it packed and that the text and the numbers fit their types.
\<close>

theorem end_to_end:
  assumes "run_state (Resolve E (s_res s) (req_name req) (req_type req)) w = (Inr answer, v)"
    and "Pack E answer = Inr wire" and "wire \<noteq> []" and "Unpack E wire = Inr answer"
    and "run_state (resolve_fresh E s req (zero_response\<lparr>rsp_id := req_id req, rsp_name := req_name req,
           rsp_type := req_type req\<rparr>)) w = (r, w')"
    and "wf_request req" and "in_int64 (m_rcode answer)" and "in_int64 (clock E (ticks v))"
    and "m_question query = [q]" and "req_name req = to_lower (Fqdn E (q_name q))" and "req_type req = q_type q"
    and "fst (localGet c t1 (CacheKey (req_name req) (req_type req))) = None"
  shows "fst (client_handle E c t1 t2 (\<lambda>key name qtype. delivered lastID entry (marshal_response r)) query) =
    answer\<lparr>m_id := m_id query\<rparr>"
proof -
  have r: "r = zero_response\<lparr>rsp_id := req_id req, rsp_name := req_name req, rsp_type := req_type req,
      rsp_wire := wire, rsp_rcode := m_rcode answer, rsp_resolved_at := clock E (ticks v)\<rparr>"
    using resolve_fresh_result [OF assms(1,2,5)] by simp
  have "wf_response r"
    using assms(6-8) by (simp add: r wf_response_def wf_request_def zero_response_def)
  moreover have "rsp_err r = []" "rsp_wire r = wire" by (simp_all add: r zero_response_def)
  ultimately have d: "delivered lastID entry (marshal_response r) = Inr r"
    using assms(3) by (simp add: delivered_response)
  then have "fst (resolveQuery E c t1 t2 (\<lambda>key name qtype. delivered lastID entry (marshal_response r)) query) =
      (Some wire, RcodeSuccess)"
    using assms(10-12) \<open>rsp_wire r = wire\<close>
    by (simp add: resolveQuery_cases [OF assms(9) refl refl])
  then show ?thesis
    using assms(4) by (simp add: client_handle_def reply_def case_prod_unfold)
qed

lemma dns_env_fields [simp]:
  "Pack dns_env m = Inr ''wire''" "Unpack dns_env ''wire'' = Inr two_ip_msg" "clock dns_env n = 1000"
  "Exchange dns_env n net d m up = Inr two_ip_msg"
  by (simp_all add: dns_env_def stub_env_def)

theorem end_to_end_witness:
  "let E = mem_env dns_env;
       s = toy_server\<lparr>s_res := Resolver_New ''192.0.2.53:53'' ''udp'' second\<rparr>;
       r = fst (run_state (resolve_fresh E s toy_request
             (zero_response\<lparr>rsp_id := req_id toy_request, rsp_name := req_name toy_request,
                rsp_type := req_type toy_request\<rparr>)) start_world)
   in fst (client_handle E toy_client 1000 1000
        (\<lambda>key name qtype. delivered ''$'' ''1-0'' (marshal_response r)) toy_query) =
      two_ip_msg\<lparr>m_id := m_id toy_query\<rparr>"
  unfolding Let_def
proof (rule end_to_end [where wire = "''wire''"])
  let ?E = "mem_env dns_env"
  let ?s = "toy_server\<lparr>s_res := Resolver_New ''192.0.2.53:53'' ''udp'' second\<rparr>"
  let ?resp = "zero_response\<lparr>rsp_id := req_id toy_request, rsp_name := req_name toy_request,
      rsp_type := req_type toy_request\<rparr>"
  show "run_state (Resolve ?E (s_res ?s) (req_name toy_request) (req_type toy_request)) start_world =
      (Inr two_ip_msg, start_world\<lparr>ticks := Suc (ticks start_world)\<rparr>)"
    by (simp add: Resolve_def Resolver_New_def)
  show "run_state (resolve_fresh ?E ?s toy_request ?resp) start_world =
      (fst (run_state (resolve_fresh ?E ?s toy_request ?resp) start_world),
       snd (run_state (resolve_fresh ?E ?s toy_request ?resp) start_world))"
    by simp
  show "wf_request toy_request" by (simp add: wf_request_def toy_request_def valid_utf8_ascii)
  show "m_question toy_query = [\<lparr>q_name = ''Example.COM'', q_type = 1, q_class = 1\<rparr>]" by simp
  show "in_int64 (m_rcode two_ip_msg)" by (simp add: in_int64_def two_ip_msg_def Let_def)
qed (simp_all add: toy_miss toy_request_def in_int64_def)

section \<open>From a resolution to every warm cache\<close>

lemma resolve_fresh_publishes:
  assumes "run_state (Resolve E (s_res s) (req_name req) (req_type req)) w = (Inr answer, v)"
    and "Pack E answer = Inr wire" and "run_state (resolve_fresh E s req resp) w = (r, w')"
  shows "\<exists>cs. cmds w' = cs @ [PUBLISH ChannelUpdates (marshal_update
    \<lparr>upd_name = req_name req, upd_type = req_type req, upd_rcode = m_rcode answer,
     upd_resolved_at = clock E (ticks v), upd_wire = wire\<rparr>)]"
proof -
  obtain ttl u where "run_state (cache E s (req_name req) (req_type req) wire answer) (v\<lparr>ticks := Suc (ticks v)\<rparr>) = (ttl, u)"
    by fastforce
  with assms have "w' = snd (run_state (call E (PUBLISH ChannelUpdates (marshal_update
    \<lparr>upd_name = req_name req, upd_type = req_type req, upd_rcode = m_rcode answer,
     upd_resolved_at = clock E (ticks v), upd_wire = wire\<rparr>))) u)"
    by (auto simp: resolve_fresh_def publish_def split: prod.splits)
  then show ?thesis by (simp only: call_snd(2)) blast
qed

text \<open>
  C8: A resolution warms every client.  The last thing the server does for a request it
  resolves is to broadcast one update; any client that receives it, whoever asked, and that
  holds nothing newer, from then on answers a query for the name and type with the resolved
  message, under the query's own ID and without asking the server, until the local lifetime
  of the message has passed.
\<close>

theorem broadcast_warms_clients:
  assumes "run_state (Resolve E (s_res s) (req_name req) (req_type req)) w = (Inr answer, v)"
    and "Pack E answer = Inr wire" and "wire \<noteq> []" and "Unpack E wire = Inr answer"
    and "run_state (resolve_fresh E s req resp) w = (r, w')"
    and "valid_utf8 (req_name req)" and "in_int64 (m_rcode answer)" and "in_int64 (clock E (ticks v))"
    and "m_question query = [q]" and "to_lower (Fqdn E (q_name q)) = req_name req" and "q_type q = req_type req"
    and "\<And>e. c_local c (CacheKey (req_name req) (req_type req)) = Some e \<Longrightarrow> le_resolvedAt e \<le> clock E (ticks v)"
    and "t \<le> t0 + local_lifetime E c wire"
  shows "\<exists>cs payload. cmds w' = cs @ [PUBLISH ChannelUpdates payload] \<and>
    client_handle E (runSubscriber E c [SubMsg payload t0]) t t2 sfDo query =
      (answer\<lparr>m_id := m_id query\<rparr>, runSubscriber E c [SubMsg payload t0])"
proof -
  let ?u = "\<lparr>upd_name = req_name req, upd_type = req_type req, upd_rcode = m_rcode answer,
     upd_resolved_at = clock E (ticks v), upd_wire = wire\<rparr>"
  let ?c = "runSubscriber E c [SubMsg (marshal_update ?u) t0]"
  obtain cs where cs: "cmds w' = cs @ [PUBLISH ChannelUpdates (marshal_update ?u)]"
    using resolve_fresh_publishes [OF assms(1,2,5)] by blast
  have "resolveQuery E ?c t t2 sfDo query = ((Some (upd_wire ?u), RcodeSuccess), ?c)"
    by (rule update_warms_cache [OF _ _ _ refl assms(9)]) (use assms in \<open>simp_all add: wf_update_def\<close>)
  then have "client_handle E ?c t t2 sfDo query = (answer\<lparr>m_id := m_id query\<rparr>, ?c)"
    using assms(4) by (simp add: client_handle_def reply_def)
  with cs show ?thesis by blast
qed

theorem broadcast_warms_clients_witness:
  "let E = mem_env dns_env;
       s = toy_server\<lparr>s_res := Resolver_New ''192.0.2.53:53'' ''udp'' second\<rparr>;
       w' = snd (run_state (resolve_fresh E s toy_request zero_response) start_world)
   in \<exists>cs payload. cmds w' = cs @ [PUBLISH ChannelUpdates payload] \<and>
        client_handle E (runSubscriber E toy_client [SubMsg payload 2000]) (200 * second) 0
          (\<lambda>key name qtype. Inl ''not asked'') toy_query =
        (two_ip_msg\<lparr>m_id := m_id toy_query\<rparr>, runSubscriber E toy_client [SubMsg payload 2000])"
  unfolding Let_def
proof (rule broadcast_warms_clients [where wire = "''wire''", OF _ _ _ _ prod.collapse [symmetric]])
  let ?E = "mem_env dns_env"
  show "run_state (Resolve ?E (s_res (toy_server\<lparr>s_res := Resolver_New ''192.0.2.53:53'' ''udp'' second\<rparr>))
      (req_name toy_request) (req_type toy_request)) start_world =
      (Inr two_ip_msg, start_world\<lparr>ticks := Suc (ticks start_world)\<rparr>)"
    by (simp add: Resolve_def Resolver_New_def)
  have "local_lifetime ?E toy_client ''wire'' = local_lifetime dns_env toy_client ''wire''"
    by (simp add: local_lifetime_def)
  then show "200 * second \<le> 2000 + local_lifetime ?E toy_client ''wire''"
    by (simp add: dns_env_wire second_def)
  show "in_int64 (m_rcode two_ip_msg)" by (simp add: in_int64_def two_ip_msg_def Let_def)
  show "m_question toy_query = [\<lparr>q_name = ''Example.COM'', q_type = 1, q_class = 1\<rparr>]" by simp
qed (simp_all add: toy_request_def in_int64_def valid_utf8_ascii)

end
